theory Spec2Isabelle
  imports Complex_Main "HOL-Library.Word" "HOL-Library.AList" "HOL-Library.Multiset"
begin

unbundle bit_operations_syntax

section \<open>Python values shared by every module\<close>

text \<open>
  Byte strings are lists of 8-bit words, text strings are lists of characters.
  Python floats are modelled by the reals. IEEE rounding is not represented, except in
  the waveform display, where the rounded product is a parameter; the statements are
  chosen so that they do not depend on it.
  Every exception the modelled code can raise is a value of \<open>py_error\<close>.
\<close>

type_synonym byte = "8 word"
type_synonym bytes = "byte list"

datatype py_error =
    ValueError
  | IndexError
  | AttributeError
  | FileNotFoundError
  | FileExistsError
  | IsADirectoryError
  | NotADirectoryError
  | SameFileError
  | StructError
  | WaveError

text \<open>\<open>int(x)\<close> on a float truncates towards zero.\<close>

definition py_int :: "real \<Rightarrow> int" where
  "py_int x = (if 0 \<le> x then \<lfloor>x\<rfloor> else \<lceil>x\<rceil>)"

text \<open>\<open>a // b\<close> and \<open>a % b\<close> on floats: the floor of the quotient, and the remainder
  that takes the sign of the divisor.\<close>

definition py_floordiv :: "real \<Rightarrow> real \<Rightarrow> real" where
  "py_floordiv a b = real_of_int \<lfloor>a / b\<rfloor>"

definition py_mod :: "real \<Rightarrow> real \<Rightarrow> real" where
  "py_mod a b = a - b * real_of_int \<lfloor>a / b\<rfloor>"

text \<open>Decimal formatting: \<open>str(n)\<close>, \<open>s.zfill(w)\<close> and the format specification
  \<open>02d\<close>, whose zero padding counts a sign as part of the width.\<close>

definition digit_char :: "nat \<Rightarrow> char" where
  "digit_char d = ''0123456789'' ! d"

fun str_nat :: "nat \<Rightarrow> string" where
  "str_nat n =
     (if n < 10 then [digit_char n] else str_nat (n div 10) @ [digit_char (n mod 10)])"

definition str_int :: "int \<Rightarrow> string" where
  "str_int n = (if n < 0 then CHR ''-'' # str_nat (nat (- n)) else str_nat (nat n))"

definition zfill :: "nat \<Rightarrow> string \<Rightarrow> string" where
  "zfill w s = replicate (w - length s) CHR ''0'' @ s"

definition format_02d :: "int \<Rightarrow> string" where
  "format_02d n =
     (if n < 0 then CHR ''-'' # zfill 1 (str_nat (nat (- n))) else zfill 2 (str_nat (nat n)))"

definition is_digit :: "char \<Rightarrow> bool" where
  "is_digit c = (c \<in> set ''0123456789'')"

section \<open>Time formatting\<close>

text \<open>\<open>format_time(seconds)\<close>: the local name \<open>seconds\<close> is rebound to the remainder
  before the tenths are taken from it, as in the source.\<close>

definition format_time :: "real \<Rightarrow> string" where
  "format_time seconds0 =
     (let minutes = py_int (py_floordiv seconds0 60);
          seconds = py_mod seconds0 60;
          tenths = py_int (py_mod (seconds * 10) 10)
      in format_02d minutes @ '':'' @ format_02d (py_int seconds) @ ''.'' @ str_int tenths)"

section \<open>The waveform display\<close>

text \<open>
  The canvas keeps its geometry, the last reported amplitude, the animation flag and the
  list \<open>heights\<close>. The attribute \<open>heights\<close> is created by \<open>start_animation\<close>, the only
  place that sets \<open>animation_running\<close>; before that the model holds the empty list.
\<close>

record waveform_display =
  height :: int
  width :: int
  amplitude :: real
  bars :: int
  bar_width :: int
  bar_gap :: int
  animation_running :: bool
  heights :: "int list"

text \<open>A rectangle handed to \<open>create_rectangle\<close>: left, top, right, bottom.\<close>

type_synonym rect = "int \<times> int \<times> int \<times> int"

definition rect_height :: "rect \<Rightarrow> int" where
  "rect_height r = (case r of (x0, y0, x1, y1) \<Rightarrow> y1 - y0)"

text \<open>The state the constructor leaves, before its first \<open>draw_waveform\<close>.\<close>

definition init_display :: "int \<Rightarrow> int \<Rightarrow> waveform_display" where
  "init_display w h =
     \<lparr>height = h, width = w, amplitude = 0, bars = 60, bar_width = 8, bar_gap = 2,
      animation_running = False, heights = []\<rparr>"

text \<open>\<open>random.randint(a, b)\<close> returns some integer of \<open>[a, b]\<close>. The model takes the
  generator's raw output \<open>r\<close> as an input and folds it into the interval, so every
  member of the interval is a possible result and nothing else is.\<close>

definition randint :: "int \<Rightarrow> int \<Rightarrow> int \<Rightarrow> int" where
  "randint a b r = a + r mod (b - a + 1)"

text \<open>
  The products with the amplitude are products of doubles and are rounded.
  \<open>fmul x y\<close> stands for the double that \<open>x * y\<close> evaluates to; it is a parameter of
  the model and nothing is assumed of it. The literal \<open>0.8\<close> is the double nearest to
  four fifths.
\<close>

definition double_0_8 :: real where
  "double_0_8 = 3602879701896397 / 4503599627370496"

text \<open>\<open>int(self.height * 0.8)\<close>: the height is an integer, and for an integer below 2 to
  the power 50 in absolute value the rounded product with the double \<open>0.8\<close> truncates to
  the same integer as four fifths of it, which is what the model computes.\<close>

definition height_cap :: "waveform_display \<Rightarrow> int" where
  "height_cap w = py_int (real_of_int (height w) * 0.8)"

definition max_diff :: "(real \<Rightarrow> real \<Rightarrow> real) \<Rightarrow> waveform_display \<Rightarrow> int" where
  "max_diff fmul w = max 5 (py_int (fmul (amplitude w) 20))"

text \<open>The height of bar \<open>i\<close> while animating, from the heights written so far.
  \<open>hs ! (i - 1)\<close> is read only after the bounds check Python's list indexing makes.
  The product for the first bar is evaluated from the left.\<close>

definition animated_height :: "(real \<Rightarrow> real \<Rightarrow> real) \<Rightarrow> waveform_display \<Rightarrow> int list
    \<Rightarrow> nat \<Rightarrow> int \<Rightarrow> py_error + int" where
  "animated_height fmul w hs i r =
     (if 0 < i then
        (if i - 1 < length hs then
           (let prev_height = hs ! (i - 1);
                random_factor = randint (- max_diff fmul w) (max_diff fmul w) r
            in Inr (max 2 (min (height_cap w) (prev_height + random_factor))))
         else Inl IndexError)
      else
        (let bar_height =
               py_int (fmul (fmul (amplitude w) (real_of_int (height w))) double_0_8)
         in Inr (max 2 (min (height_cap w) bar_height))))"

definition bar_rect :: "waveform_display \<Rightarrow> int \<Rightarrow> nat \<Rightarrow> int \<Rightarrow> rect" where
  "bar_rect w start_x i bar_height =
     (let y = (height w div 2) - (bar_height div 2);
          x = start_x + (int i * (bar_width w + bar_gap w))
      in (x, y, x + bar_width w, y + bar_height))"

text \<open>The body of the loop over the bars, for the indices \<open>is\<close> still to draw: the
  heights list and the rectangles drawn so far are threaded through.\<close>

fun draw_bars :: "(real \<Rightarrow> real \<Rightarrow> real) \<Rightarrow> waveform_display \<Rightarrow> (nat \<Rightarrow> int) \<Rightarrow> int
    \<Rightarrow> nat list \<Rightarrow> int list \<Rightarrow> rect list \<Rightarrow> py_error + (int list \<times> rect list)" where
  "draw_bars fmul w rnd start_x [] hs rs = Inr (hs, rs)"
| "draw_bars fmul w rnd start_x (i # is) hs rs =
     (if \<not> animation_running w then
        draw_bars fmul w rnd start_x is hs (rs @ [bar_rect w start_x i 2])
      else
        (case animated_height fmul w hs i (rnd i) of
           Inl e \<Rightarrow> Inl e
         | Inr bar_height \<Rightarrow>
             (if i < length hs then
                draw_bars fmul w rnd start_x is (hs[i := bar_height])
                  (rs @ [bar_rect w start_x i bar_height])
              else Inl IndexError)))"

text \<open>\<open>draw_waveform\<close>: the grid lines do not depend on the bars and are left out.
  \<open>range(n)\<close> is empty for a negative \<open>n\<close>.\<close>

definition draw_waveform :: "(real \<Rightarrow> real \<Rightarrow> real) \<Rightarrow> waveform_display \<Rightarrow> (nat \<Rightarrow> int)
    \<Rightarrow> py_error + (waveform_display \<times> rect list)" where
  "draw_waveform fmul w rnd =
     (let available_width = width w - 20;
          max_bars = available_width div (bar_width w + bar_gap w);
          bars_to_draw = min (bars w) max_bars;
          start_x = (width w - (bars_to_draw * (bar_width w + bar_gap w))) div 2
      in case draw_bars fmul w rnd start_x [0 ..< nat bars_to_draw] (heights w) [] of
           Inl e \<Rightarrow> Inl e
         | Inr (hs, rs) \<Rightarrow> Inr (w\<lparr>heights := hs\<rparr>, rs))"

definition update_amplitude :: "waveform_display \<Rightarrow> real \<Rightarrow> waveform_display" where
  "update_amplitude w a = w\<lparr>amplitude := min 1.0 (a * 1.5)\<rparr>"

text \<open>\<open>start_animation\<close> without its thread: the flag and the fresh heights.\<close>

definition start_animation :: "waveform_display \<Rightarrow> waveform_display" where
  "start_animation w = w\<lparr>animation_running := True, heights := replicate (nat (bars w)) 2\<rparr>"

text \<open>The invariant of the loop over the bars while animating: after \<open>k\<close> bars, the
  rectangles drawn carry the heights written; the first height is the clamped amplitude
  height and each later one the clamped sum of the height before it and its random
  factor; every height is at least 2 and at most the larger of 2 and the cap, and
  neighbours differ by at most \<open>max_diff\<close>.\<close>

definition bars_ok :: "(real \<Rightarrow> real \<Rightarrow> real) \<Rightarrow> (nat \<Rightarrow> int) \<Rightarrow> waveform_display \<Rightarrow> nat
    \<Rightarrow> int list \<Rightarrow> rect list \<Rightarrow> bool" where
  "bars_ok fmul rnd w k hs rs \<longleftrightarrow>
     length rs = k \<and> k \<le> length hs \<and>
     (\<forall>i<k. rect_height (rs ! i) = hs ! i) \<and>
     (\<forall>i<k. 2 \<le> hs ! i \<and> hs ! i \<le> max 2 (height_cap w)) \<and>
     (\<forall>i. Suc i < k \<longrightarrow> \<bar>hs ! Suc i - hs ! i\<bar> \<le> max_diff fmul w) \<and>
     (0 < k \<longrightarrow>
        hs ! 0 = max 2 (min (height_cap w)
                   (py_int (fmul (fmul (amplitude w) (real_of_int (height w))) double_0_8)))) \<and>
     (\<forall>i. Suc i < k \<longrightarrow>
        hs ! Suc i = max 2 (min (height_cap w)
                       (hs ! i + randint (- max_diff fmul w) (max_diff fmul w) (rnd (Suc i)))))"

section \<open>Paths and the file system\<close>

text \<open>
  \<open>os.path\<close> on POSIX, as \<open>posixpath\<close> defines \<open>join\<close> (for two components),
  \<open>basename\<close> and \<open>dirname\<close>: the base name is what follows the last separator, the
  directory name is what precedes it, without its trailing separators unless it
  consists of separators only.
\<close>

definition sep :: char where
  "sep = CHR ''/''"

definition path_join :: "string \<Rightarrow> string \<Rightarrow> string" where
  "path_join a b =
     (if b \<noteq> [] \<and> hd b = sep then b
      else if a = [] \<or> last a = sep then a @ b
      else a @ [sep] @ b)"

definition basename :: "string \<Rightarrow> string" where
  "basename p = rev (takeWhile (\<lambda>c. c \<noteq> sep) (rev p))"

definition dirname :: "string \<Rightarrow> string" where
  "dirname p =
     (let head = rev (dropWhile (\<lambda>c. c \<noteq> sep) (rev p))
      in if head \<noteq> [] \<and> \<not> list_all (\<lambda>c. c = sep) head
         then rev (dropWhile (\<lambda>c. c = sep) (rev head))
         else head)"

definition endswith :: "string \<Rightarrow> string \<Rightarrow> bool" where
  "endswith s suffix =
     (length suffix \<le> length s \<and> drop (length s - length suffix) s = suffix)"

text \<open>
  The file system is an association list from path strings to nodes, in the order in
  which the operating system enumerates them. A regular file has its bytes and its
  modification time (seconds, a float in Python); the timestamps of directories are not
  tracked, the program never reads one. Every file-system object is known under one
  path string: links, relative versus absolute spellings and concurrent changes by
  other processes are outside the model.
\<close>

datatype node = File (content: bytes) (mtime: real) | Dir

type_synonym filesystem = "(string \<times> node) list"

definition path_exists :: "filesystem \<Rightarrow> string \<Rightarrow> bool" where
  "path_exists fs p = (map_of fs p \<noteq> None)"

definition isfile :: "filesystem \<Rightarrow> string \<Rightarrow> bool" where
  "isfile fs p = (case map_of fs p of Some (File c m) \<Rightarrow> True | _ \<Rightarrow> False)"

definition isdir :: "filesystem \<Rightarrow> string \<Rightarrow> bool" where
  "isdir fs p = (map_of fs p = Some Dir)"

text \<open>\<open>os.path.getmtime\<close>; \<open>None\<close> stands for a missing path (\<open>FileNotFoundError\<close>)
  and for a directory, whose timestamp the model does not hold.\<close>

definition getmtime :: "filesystem \<Rightarrow> string \<Rightarrow> real option" where
  "getmtime fs p = (case map_of fs p of Some (File c m) \<Rightarrow> Some m | _ \<Rightarrow> None)"

text \<open>Reading a whole file, \<open>open(p, 'rb').read()\<close>.\<close>

definition read_file :: "filesystem \<Rightarrow> string \<Rightarrow> py_error + bytes" where
  "read_file fs p =
     (case map_of fs p of
        None \<Rightarrow> Inl FileNotFoundError
      | Some Dir \<Rightarrow> Inl IsADirectoryError
      | Some (File c m) \<Rightarrow> Inr c)"

text \<open>\<open>os.listdir(d)\<close>: the names of the entries whose path is \<open>d\<close> joined with the
  name, in enumeration order.\<close>

definition listdir :: "filesystem \<Rightarrow> string \<Rightarrow> py_error + string list" where
  "listdir fs d =
     (case map_of fs d of
        None \<Rightarrow> Inl FileNotFoundError
      | Some (File c m) \<Rightarrow> Inl NotADirectoryError
      | Some Dir \<Rightarrow>
          Inr (map basename
                 (filter (\<lambda>p. p \<noteq> d \<and> basename p \<noteq> [] \<and> path_join d (basename p) = p)
                    (map fst fs))))"

text \<open>Whether a file may be created at \<open>p\<close>: the name is not empty, does not end in a
  separator, and its directory is the current one or an existing directory.\<close>

definition check_parent :: "filesystem \<Rightarrow> string \<Rightarrow> py_error option" where
  "check_parent fs p =
     (if p = [] then Some FileNotFoundError
      else if basename p = [] then Some IsADirectoryError
      else if dirname p = [] \<or> isdir fs (dirname p) then None
      else if isfile fs (dirname p) then Some NotADirectoryError
      else Some FileNotFoundError)"

text \<open>\<open>open(p, 'wb')\<close> at time \<open>t\<close>: an existing file is truncated, a missing one is
  created.\<close>

definition open_wb :: "filesystem \<Rightarrow> string \<Rightarrow> real \<Rightarrow> py_error + filesystem" where
  "open_wb fs p t =
     (case map_of fs p of
        Some Dir \<Rightarrow> Inl IsADirectoryError
      | Some (File c m) \<Rightarrow> Inr (AList.update p (File [] t) fs)
      | None \<Rightarrow>
          (case check_parent fs p of
             Some e \<Rightarrow> Inl e
           | None \<Rightarrow> Inr (AList.update p (File [] t) fs)))"

text \<open>The bytes written to an open file at \<open>p\<close>, closed at time \<open>t\<close>.\<close>

definition write_file :: "filesystem \<Rightarrow> string \<Rightarrow> bytes \<Rightarrow> real \<Rightarrow> filesystem" where
  "write_file fs p c t = AList.update p (File c t) fs"

text \<open>\<open>tempfile.mkstemp\<close> followed by \<open>os.close\<close>: a new empty file. The name the
  generator picks is an input of the model; \<open>mkstemp\<close> never reuses an existing name.\<close>

definition mkstemp :: "filesystem \<Rightarrow> string \<Rightarrow> real \<Rightarrow> py_error + filesystem" where
  "mkstemp fs p t =
     (if path_exists fs p then Inl FileExistsError
      else case check_parent fs p of
             Some e \<Rightarrow> Inl e
           | None \<Rightarrow> Inr (AList.update p (File [] t) fs))"

text \<open>\<open>os.remove\<close>.\<close>

definition remove :: "filesystem \<Rightarrow> string \<Rightarrow> py_error + filesystem" where
  "remove fs p =
     (case map_of fs p of
        None \<Rightarrow> Inl FileNotFoundError
      | Some Dir \<Rightarrow> Inl IsADirectoryError
      | Some (File c m) \<Rightarrow> Inr (AList.delete p fs))"

text \<open>\<open>os.path.split\<close> as \<open>os.makedirs\<close> uses it: head and tail of the name, taken
  once more from the head when the name ends in a separator.\<close>

definition split_head :: "string \<Rightarrow> string" where
  "split_head name = (if basename name = [] then dirname (dirname name) else dirname name)"

definition split_tail :: "string \<Rightarrow> string" where
  "split_tail name = (if basename name = [] then basename (dirname name) else basename name)"

text \<open>\<open>os.mkdir\<close>: the parent of the new directory is that head.\<close>

definition mkdir :: "filesystem \<Rightarrow> string \<Rightarrow> py_error + filesystem" where
  "mkdir fs p =
     (if path_exists fs p then Inl FileExistsError
      else if p = [] then Inl FileNotFoundError
      else if split_head p = [] \<or> split_head p = p \<or> isdir fs (split_head p)
        then Inr (AList.update p Dir fs)
      else if isfile fs (split_head p) then Inl NotADirectoryError
      else Inl FileNotFoundError)"

section \<open>The wave module\<close>

text \<open>
  \<open>struct.pack\<close> with the little-endian codes \<open>L\<close> (four bytes), \<open>H\<close> (two bytes) and
  \<open>4s\<close> (four literal bytes): an unsigned field that does not fit its width raises
  \<open>struct.error\<close>.
\<close>

datatype field = Lit bytes | UInt nat nat

definition pack_uint :: "nat \<Rightarrow> nat \<Rightarrow> py_error + bytes" where
  "pack_uint k n =
     (if n < 256 ^ k then Inr (map (\<lambda>i. word_of_nat (n div 256 ^ i)) [0 ..< k])
      else Inl StructError)"

fun pack_fields :: "field list \<Rightarrow> py_error + bytes" where
  "pack_fields [] = Inr []"
| "pack_fields (Lit b # fs) =
     (case pack_fields fs of Inl e \<Rightarrow> Inl e | Inr bs \<Rightarrow> Inr (b @ bs))"
| "pack_fields (UInt k n # fs) =
     (case pack_uint k n of
        Inl e \<Rightarrow> Inl e
      | Inr b \<Rightarrow> (case pack_fields fs of Inl e \<Rightarrow> Inl e | Inr bs \<Rightarrow> Inr (b @ bs)))"

definition unpack_uint :: "bytes \<Rightarrow> nat" where
  "unpack_uint bs = foldr (\<lambda>b acc. unat b + 256 * acc) bs 0"

text \<open>The four-character tags, as bytes: \<open>RIFF\<close>, \<open>WAVE\<close>, \<open>fmt \<close> and \<open>data\<close>.\<close>

definition RIFF :: bytes where
  "RIFF = [0x52, 0x49, 0x46, 0x46]"

definition WAVE :: bytes where
  "WAVE = [0x57, 0x41, 0x56, 0x45]"

definition fmt_tag :: bytes where
  "fmt_tag = [0x66, 0x6D, 0x74, 0x20]"

definition data_tag :: bytes where
  "data_tag = [0x64, 0x61, 0x74, 0x61]"

text \<open>What \<open>Wave_write._write_header\<close> packs after the \<open>RIFF\<close> tag, for a data length
  in bytes; \<open>WAVE_FORMAT_PCM\<close> is 1.\<close>

definition wave_header_fields :: "nat \<Rightarrow> nat \<Rightarrow> nat \<Rightarrow> nat \<Rightarrow> field list" where
  "wave_header_fields nchannels sampwidth framerate datalength =
     [UInt 4 (36 + datalength), Lit WAVE, Lit fmt_tag, UInt 4 16,
      UInt 2 1, UInt 2 nchannels, UInt 4 framerate,
      UInt 4 (nchannels * framerate * sampwidth),
      UInt 2 (nchannels * sampwidth), UInt 2 (sampwidth * 8),
      Lit data_tag, UInt 4 datalength]"

text \<open>
  One use of a \<open>Wave_write\<close> object as \<open>_save_to_temp_file\<close> makes it: the three
  setters, \<open>writeframes\<close> of one byte string, and \<open>close\<close> on leaving the \<open>with\<close> block.
  The result is the exception that leaves the block, if any, and the bytes in the file
  afterwards. A setter that rejects its argument leaves the file empty, since \<open>close\<close>
  then fails before it writes. A header field out of range raises after the tag was
  written, and again in \<open>close\<close>, which writes the tag a second time. When the data is
  not a whole number of frames, \<open>_patchheader\<close> rewrites the two length fields, at
  offsets 4 and 40, from the bytes written.
\<close>

definition patch_at :: "nat \<Rightarrow> bytes \<Rightarrow> bytes \<Rightarrow> bytes" where
  "patch_at pos new bs = take pos bs @ new @ drop (pos + length new) bs"

definition wave_write :: "nat \<Rightarrow> nat \<Rightarrow> nat \<Rightarrow> bytes \<Rightarrow> py_error option \<times> bytes" where
  "wave_write nchannels sampwidth framerate data =
     (if nchannels < 1 then (Some WaveError, [])
      else if sampwidth < 1 \<or> 4 < sampwidth then (Some WaveError, [])
      else if framerate \<le> 0 then (Some WaveError, [])
      else
        (let nframes = length data div (nchannels * sampwidth);
             datalength = nframes * nchannels * sampwidth
         in case pack_fields (wave_header_fields nchannels sampwidth framerate datalength) of
              Inl e \<Rightarrow> (Some e, RIFF @ RIFF)
            | Inr h \<Rightarrow>
                (if datalength \<noteq> length data then
                   (case pack_uint 4 (36 + length data) of
                      Inl e \<Rightarrow> (Some e, RIFF @ h @ data)
                    | Inr form_length \<Rightarrow>
                        (case pack_uint 4 (length data) of
                           Inl e \<Rightarrow> (Some e, patch_at 4 form_length (RIFF @ h @ data))
                         | Inr data_length \<Rightarrow>
                             (None, patch_at 40 data_length
                                      (patch_at 4 form_length (RIFF @ h @ data)))))
                 else (None, RIFF @ h @ data))))"

text \<open>The parameters a \<open>Wave_read\<close> object reports.\<close>

record wave_params =
  nchannels :: nat
  sampwidth :: nat
  framerate :: nat
  nframes :: nat

text \<open>\<open>Wave_read._read_fmt_chunk\<close> on the bytes of the chunk: format tag, channels,
  frame rate, byte rate, block alignment, then the bits per sample. Only PCM is read;
  the result is channels, frame rate and sample width in bytes.\<close>

definition read_fmt_chunk :: "bytes \<Rightarrow> (nat \<times> nat \<times> nat) option" where
  "read_fmt_chunk c =
     (if length c < 14 then None
      else if unpack_uint (take 2 c) \<noteq> 1 then None
      else if length c < 16 then None
      else
        (let nch = unpack_uint (take 2 (drop 2 c));
             rate = unpack_uint (take 4 (drop 4 c));
             sw = (unpack_uint (take 2 (drop 14 c)) + 7) div 8
         in if sw = 0 then None
            else if nch = 0 then None
            else Some (nch, rate, sw)))"

text \<open>The loop of \<open>Wave_read.initfp\<close> over the chunks inside the \<open>RIFF\<close> form: it ends
  with the parameters at the \<open>data\<close> chunk, whose frame count is the chunk size from its
  header divided by the frame size; every other chunk is skipped to the next even
  offset. \<open>None\<close> stands for any exception.\<close>

function read_chunks :: "(nat \<times> nat \<times> nat) option \<Rightarrow> bytes \<Rightarrow> wave_params option" where
  "read_chunks fmt bs =
     (if length bs < 8 then None
      else
        (let chunkname = take 4 bs;
             chunksize = unpack_uint (take 4 (drop 4 bs));
             rest = drop 8 bs
         in if chunkname = fmt_tag then
              (case read_fmt_chunk (take chunksize rest) of
                 None \<Rightarrow> None
               | Some f \<Rightarrow> read_chunks (Some f) (drop (chunksize + chunksize mod 2) rest))
            else if chunkname = data_tag then
              (case fmt of
                 None \<Rightarrow> None
               | Some (nch, rate, sw) \<Rightarrow>
                   Some \<lparr>nchannels = nch, sampwidth = sw, framerate = rate,
                         nframes = chunksize div (nch * sw)\<rparr>)
            else read_chunks fmt (drop (chunksize + chunksize mod 2) rest)))"
  by pat_completeness auto
termination
  by (relation "measure (\<lambda>(fmt, bs). length bs)") auto

declare read_chunks.simps [simp del]

text \<open>\<open>wave.open(f, 'rb')\<close> on the bytes of a file: reads inside the form are cut off
  at the form's declared size.\<close>

definition wave_read :: "bytes \<Rightarrow> wave_params option" where
  "wave_read bs =
     (if length bs < 8 then None
      else if take 4 bs \<noteq> RIFF then None
      else
        (let body = take (unpack_uint (take 4 (drop 4 bs))) (drop 8 bs)
         in if take 4 body \<noteq> WAVE then None
            else read_chunks None (drop 4 body)))"

text \<open>The body of the header from the size of the format chunk to the bits per sample,
  as the writer packs it for one channel, two bytes per sample and 44100 frames per
  second: size 16, PCM, 1 channel, rate 44100, 88200 bytes per second, block
  alignment 2, 16 bits.\<close>

definition pcm_fmt :: bytes where
  "pcm_fmt = [16, 0, 0, 0,  1, 0,  1, 0,  0x44, 0xAC, 0, 0,  0x88, 0x58, 1, 0,  2, 0,  16, 0]"

section \<open>The audio recorder\<close>

text \<open>PyAudio's sample formats and \<open>get_sample_size\<close>, the width in bytes.\<close>

datatype sample_format = paFloat32 | paInt32 | paInt24 | paInt16 | paInt8 | paUInt8

fun get_sample_size :: "sample_format \<Rightarrow> nat" where
  "get_sample_size paFloat32 = 4"
| "get_sample_size paInt32 = 4"
| "get_sample_size paInt24 = 3"
| "get_sample_size paInt16 = 2"
| "get_sample_size paInt8 = 1"
| "get_sample_size paUInt8 = 1"

text \<open>\<open>np.frombuffer(data, dtype=np.int16)\<close> on a little-endian machine: a buffer of
  odd size raises \<open>ValueError\<close>.\<close>

fun frombuffer_int16 :: "bytes \<Rightarrow> py_error + 16 word list" where
  "frombuffer_int16 [] = Inr []"
| "frombuffer_int16 [b] = Inl ValueError"
| "frombuffer_int16 (lo # hi # rest) =
     (case frombuffer_int16 rest of
        Inl e \<Rightarrow> Inl e
      | Inr xs \<Rightarrow> Inr ((push_bit 8 (ucast hi) OR ucast lo) # xs))"

text \<open>\<open>np.abs\<close> on an \<open>int16\<close> array stays in \<open>int16\<close>: negation wraps around.\<close>

definition np_abs :: "16 word \<Rightarrow> 16 word" where
  "np_abs x = (if sint x < 0 then - x else x)"

text \<open>\<open>mean()\<close> of an \<open>int16\<close> array is taken in double precision; the mean of an empty
  array is NaN, here \<open>None\<close>.\<close>

definition np_mean :: "16 word list \<Rightarrow> real option" where
  "np_mean xs =
     (if xs = [] then None
      else Some (real_of_int (sum_list (map sint xs)) / real (length xs)))"

text \<open>The volume the capture loop computes for one chunk.\<close>

definition volume_level :: "bytes \<Rightarrow> py_error + real option" where
  "volume_level data =
     (case frombuffer_int16 data of
        Inl e \<Rightarrow> Inl e
      | Inr audio_data \<Rightarrow>
          Inr (map_option (\<lambda>m. m / 32768.0) (np_mean (map np_abs audio_data))))"

text \<open>
  The recorder object. \<open>pyaudio_instance\<close> and \<open>volume_callback\<close> record whether the
  attribute is set; the stream itself is the list of chunks it delivers.
\<close>

record audio_recorder =
  chunk_size :: nat
  format :: sample_format
  channels :: nat
  rate :: nat
  frames :: "bytes list"
  pyaudio_instance :: bool
  is_recording :: bool
  temp_file :: "string option"
  volume_callback :: bool

definition init_recorder :: "bool \<Rightarrow> audio_recorder" where
  "init_recorder cb =
     \<lparr>chunk_size = 1024, format = paInt16, channels = 1, rate = 44100, frames = [],
      pyaudio_instance = False, is_recording = False, temp_file = None,
      volume_callback = cb\<rparr>"

text \<open>
  \<open>_save_to_temp_file\<close> at time \<open>t\<close>. Every exception inside the \<open>try\<close> is caught and
  printed: the call always returns, and what it leaves is the file system. Opening fails
  before anything is written; with no path the first write fails on the missing file
  object; with no PyAudio instance the sample width is never set and the opened file
  stays empty.
\<close>

definition save_to_temp_file :: "audio_recorder \<Rightarrow> filesystem \<Rightarrow> real
    \<Rightarrow> audio_recorder \<times> filesystem" where
  "save_to_temp_file r fs t =
     (if frames r = [] then (r, fs)
      else
        (case temp_file r of
           None \<Rightarrow> (r, fs)
         | Some p \<Rightarrow>
             (case open_wb fs p t of
                Inl e \<Rightarrow> (r, fs)
              | Inr fs1 \<Rightarrow>
                  (if \<not> pyaudio_instance r then (r, fs1)
                   else (r, write_file fs1 p
                              (snd (wave_write (channels r) (get_sample_size (format r))
                                      (rate r) (concat (frames r)))) t)))))"

text \<open>The capture loop, for the chunks the stream delivers until the flag is seen
  cleared; the volumes handed to the callback are collected in order.\<close>

fun capture_loop :: "audio_recorder \<Rightarrow> bytes list \<Rightarrow> real option list
    \<Rightarrow> py_error + (audio_recorder \<times> real option list)" where
  "capture_loop r [] vs = Inr (r, vs)"
| "capture_loop r (data # rest) vs =
     (let r' = r\<lparr>frames := frames r @ [data]\<rparr>
      in if volume_callback r then
           (case volume_level data of
              Inl e \<Rightarrow> Inl e
            | Inr volume \<Rightarrow> capture_loop r' rest (vs @ [volume]))
         else capture_loop r' rest vs)"

text \<open>
  \<open>start_recording\<close> together with the \<open>stop_recording\<close> that ends its loop: \<open>tmp\<close> is
  the name \<open>mkstemp\<close> picks at time \<open>t0\<close>, \<open>chunks\<close> are the reads made while the flag
  was set, and \<open>t1\<close> is the time of the save. Opening the audio device is assumed to
  succeed.
\<close>

definition start_recording :: "audio_recorder \<Rightarrow> filesystem \<Rightarrow> string \<Rightarrow> real \<Rightarrow> bytes list
    \<Rightarrow> real \<Rightarrow> py_error + (audio_recorder \<times> filesystem \<times> real option list)" where
  "start_recording r fs tmp t0 chunks t1 =
     (let r1 = r\<lparr>is_recording := True, frames := [], pyaudio_instance := True\<rparr>
      in case mkstemp fs tmp t0 of
           Inl e \<Rightarrow> Inl e
         | Inr fs1 \<Rightarrow>
             (case capture_loop (r1\<lparr>temp_file := Some tmp\<rparr>) chunks [] of
                Inl e \<Rightarrow> Inl e
              | Inr (r2, vs) \<Rightarrow>
                  (case save_to_temp_file (r2\<lparr>is_recording := False\<rparr>) fs1 t1 of
                     (r3, fs2) \<Rightarrow> Inr (r3, fs2, vs))))"

section \<open>The file manager\<close>

text \<open>\<open>os.makedirs(name)\<close>: the missing ancestors first, a \<open>FileExistsError\<close> from them
  is ignored, then \<open>mkdir\<close> of the name itself unless its last component is a dot.\<close>

function makedirs :: "filesystem \<Rightarrow> string \<Rightarrow> py_error + filesystem" where
  "makedirs fs name =
     (if split_head name \<noteq> [] \<and> split_tail name \<noteq> [] \<and> \<not> path_exists fs (split_head name)
      then
        (case makedirs fs (split_head name) of
           Inl e \<Rightarrow>
             (if e = FileExistsError
              then (if split_tail name = ''.'' then Inr fs else mkdir fs name)
              else Inl e)
         | Inr fs1 \<Rightarrow> (if split_tail name = ''.'' then Inr fs1 else mkdir fs1 name))
      else mkdir fs name)"
  by pat_completeness auto
termination
proof (relation "measure (\<lambda>(fs, name). length name)")
  show "wf (measure (\<lambda>(fs, name). length name))" by simp
next
  fix fs :: filesystem and name :: string
  assume a: "split_head name \<noteq> [] \<and> split_tail name \<noteq> [] \<and> \<not> path_exists fs (split_head name)"
  have d: "\<And>p. length (dirname p) + length (basename p) \<le> length p"
  proof -
    fix p :: string
    let ?h = "rev (dropWhile (\<lambda>c. c \<noteq> sep) (rev p))"
    have "length (rev (dropWhile (\<lambda>c. c = sep) (rev ?h))) \<le> length ?h"
      by (simp add: length_dropWhile_le)
    then have 1: "length (dirname p) \<le> length ?h" by (simp add: dirname_def Let_def)
    have "length (takeWhile (\<lambda>c. c \<noteq> sep) (rev p)) + length (dropWhile (\<lambda>c. c \<noteq> sep) (rev p))
        = length (rev p)"
      by (simp only: length_append[symmetric] takeWhile_dropWhile_id)
    then have "length ?h + length (basename p) = length p" by (simp add: basename_def)
    with 1 show "length (dirname p) + length (basename p) \<le> length p" by linarith
  qed
  have "length (split_head name) < length name"
  proof (cases "basename name = []")
    case True
    with a have "basename (dirname name) \<noteq> []" by (simp add: split_tail_def)
    then have "0 < length (basename (dirname name))" by simp
    with d[of "dirname name"] have "length (dirname (dirname name)) < length (dirname name)"
      by linarith
    moreover have "length (dirname name) \<le> length name" using d[of name] by linarith
    ultimately show ?thesis using True by (simp add: split_head_def)
  next
    case False
    then have "0 < length (basename name)" by simp
    with d[of name] have "length (dirname name) < length name" by linarith
    then show ?thesis using False by (simp add: split_head_def)
  qed
  then show "((fs, split_head name), (fs, name)) \<in> measure (\<lambda>(fs, name). length name)"
    by simp
qed

declare makedirs.simps [simp del]

text \<open>
  \<open>shutil.copy2(src, dst)\<close>: into a directory under the source's base name; a file is
  never copied onto itself; the bytes are written to the opened destination, and
  \<open>copystat\<close> then gives the copy the modification time of the source.
\<close>

definition copy2 :: "filesystem \<Rightarrow> string \<Rightarrow> string \<Rightarrow> py_error + filesystem" where
  "copy2 fs src dst0 =
     (let dst = (if isdir fs dst0 then path_join dst0 (basename src) else dst0)
      in if path_exists fs src \<and> src = dst then Inl SameFileError
         else
           (case map_of fs src of
              None \<Rightarrow> Inl FileNotFoundError
            | Some Dir \<Rightarrow> Inl IsADirectoryError
            | Some (File c m) \<Rightarrow>
                (case open_wb fs dst m of
                   Inl e \<Rightarrow> Inl e
                 | Inr fs1 \<Rightarrow> Inr (write_file fs1 dst c m))))"

text \<open>
  A naive \<open>datetime\<close>, as \<open>datetime.now()\<close> returns it, and its
  \<open>strftime("%Y%m%d_%H%M%S")\<close>: every field in decimal, padded with zeros to four digits
  for the year and to two for the others.
\<close>

record datetime =
  year :: nat
  month :: nat
  day :: nat
  hour :: nat
  minute :: nat
  second :: nat

definition valid_datetime :: "datetime \<Rightarrow> bool" where
  "valid_datetime d =
     (1000 \<le> year d \<and> year d \<le> 9999 \<and> 1 \<le> month d \<and> month d \<le> 12 \<and>
      1 \<le> day d \<and> day d \<le> 31 \<and> hour d < 24 \<and> minute d < 60 \<and> second d < 60)"

definition strftime :: "datetime \<Rightarrow> string" where
  "strftime d =
     zfill 4 (str_nat (year d)) @ zfill 2 (str_nat (month d)) @ zfill 2 (str_nat (day d)) @
     ''_'' @
     zfill 2 (str_nat (hour d)) @ zfill 2 (str_nat (minute d)) @ zfill 2 (str_nat (second d))"

record file_manager =
  recordings_dir :: string

text \<open>The constructor creates the recordings directory when nothing exists there.\<close>

definition init_file_manager :: "string \<Rightarrow> filesystem \<Rightarrow> py_error + (file_manager \<times> filesystem)" where
  "init_file_manager dir fs =
     (if \<not> path_exists fs dir then
        (case makedirs fs dir of
           Inl e \<Rightarrow> Inl e
         | Inr fs1 \<Rightarrow> Inr (\<lparr>recordings_dir = dir\<rparr>, fs1))
      else Inr (\<lparr>recordings_dir = dir\<rparr>, fs))"

text \<open>The name \<open>save_recording\<close> generates when no destination is given, from the
  current time \<open>now\<close>.\<close>

definition default_filename :: "datetime \<Rightarrow> string" where
  "default_filename now = ''recording_'' @ strftime now @ ''.wav''"

text \<open>\<open>save_recording\<close>: \<open>not destination_file\<close> holds for \<open>None\<close> and for the empty
  string.\<close>

definition save_recording :: "file_manager \<Rightarrow> filesystem \<Rightarrow> datetime \<Rightarrow> string \<Rightarrow> string option
    \<Rightarrow> py_error + (string \<times> filesystem)" where
  "save_recording fm fs now source_file destination_file0 =
     (let destination_file =
            (case destination_file0 of
               None \<Rightarrow> path_join (recordings_dir fm) (default_filename now)
             | Some d \<Rightarrow>
                 (if d = [] then path_join (recordings_dir fm) (default_filename now) else d));
          dest_dir = dirname destination_file
      in case (if dest_dir \<noteq> [] \<and> \<not> path_exists fs dest_dir then makedirs fs dest_dir
               else Inr fs) of
           Inl e \<Rightarrow> Inl e
         | Inr fs1 \<Rightarrow>
             (case copy2 fs1 source_file destination_file of
                Inl e \<Rightarrow> Inl e
              | Inr fs2 \<Rightarrow> Inr (destination_file, fs2)))"

text \<open>\<open>list.sort(key=..., reverse=True)\<close>: the keys are computed first; the sort is
  stable, and with \<open>reverse\<close> the list is reversed before and after it, so that equal
  keys keep their order.\<close>

definition sort_reverse :: "('a \<Rightarrow> real) \<Rightarrow> 'a list \<Rightarrow> 'a list" where
  "sort_reverse key xs = rev (sort_key key (rev xs))"

definition recording_mtime :: "file_manager \<Rightarrow> filesystem \<Rightarrow> string \<Rightarrow> real option" where
  "recording_mtime fm fs x = getmtime fs (path_join (recordings_dir fm) x)"

definition is_recording_name :: "file_manager \<Rightarrow> filesystem \<Rightarrow> string \<Rightarrow> bool" where
  "is_recording_name fm fs f =
     (endswith f ''.wav'' \<and> isfile fs (path_join (recordings_dir fm) f))"

definition get_saved_recordings :: "file_manager \<Rightarrow> filesystem \<Rightarrow> py_error + string list" where
  "get_saved_recordings fm fs =
     (if \<not> path_exists fs (recordings_dir fm) then Inr []
      else
        (case listdir fs (recordings_dir fm) of
           Inl e \<Rightarrow> Inl e
         | Inr names \<Rightarrow>
             (let recordings = filter (is_recording_name fm fs) names
              in case those (map (recording_mtime fm fs) recordings) of
                   None \<Rightarrow> Inl FileNotFoundError
                 | Some keys \<Rightarrow> Inr (map snd (sort_reverse fst (zip keys recordings))))))"

definition delete_recording :: "file_manager \<Rightarrow> filesystem \<Rightarrow> string
    \<Rightarrow> py_error + (bool \<times> filesystem)" where
  "delete_recording fm fs filename =
     (let file_path = path_join (recordings_dir fm) filename
      in if path_exists fs file_path then
           (case remove fs file_path of
              Inl e \<Rightarrow> Inl e
            | Inr fs1 \<Rightarrow> Inr (True, fs1))
         else Inr (False, fs))"

definition get_recording_path :: "file_manager \<Rightarrow> string \<Rightarrow> string" where
  "get_recording_path fm filename = path_join (recordings_dir fm) filename"

text \<open>\<open>int(s)\<close> for a string of decimal digits, the inverse of the decimal formatting.\<close>

definition digit_val :: "char \<Rightarrow> nat" where
  "digit_val c = of_char c - 48"

definition nat_of_digits :: "string \<Rightarrow> nat" where
  "nat_of_digits s = foldl (\<lambda>acc c. 10 * acc + digit_val c) 0 s"

section \<open>Example file systems\<close>

text \<open>A recordings directory with two recordings of the same modification time, and one
  with two recordings and a text file.\<close>

definition tie_fs :: filesystem where
  "tie_fs = [(''recordings'', Dir), (''recordings/a.wav'', File [1] 5),
             (''recordings/b.wav'', File [2] 5)]"

definition demo_fs :: filesystem where
  "demo_fs = [(''recordings'', Dir), (''recordings/a.wav'', File [1, 2] 5),
              (''recordings/notes.txt'', File [3] 9), (''recordings/b.wav'', File [4] 7)]"


text \<open>A file system after a recording session: the temporary file and an empty
  recordings directory; and a time of day.\<close>

definition session_fs :: filesystem where
  "session_fs = [(''/tmp'', Dir), (''/tmp/rec.wav'', File [82, 73, 70, 70] 10),
                 (''recordings'', Dir)]"

definition demo_now :: datetime where
  "demo_now = \<lparr>year = 2024, month = 3, day = 9, hour = 14, minute = 5, second = 7\<rparr>"
section \<open>Time formatting: proofs\<close>

lemma digit_char_is_digit: "d < 10 \<Longrightarrow> is_digit (digit_char d)"
proof -
  assume "d < 10"
  then have "d \<in> {0, 1, 2, 3, 4, 5, 6, 7, 8, 9}" by auto
  then show ?thesis by (auto simp: is_digit_def digit_char_def)
qed

declare str_nat.simps [simp del]

lemma str_nat_digits: "\<forall>c \<in> set (str_nat n). is_digit c"
proof (induction n rule: str_nat.induct)
  case (1 n)
  show ?case
  proof (cases "n < 10")
    case True
    then show ?thesis by (subst str_nat.simps) (simp add: digit_char_is_digit)
  next
    case False
    with 1 show ?thesis by (subst str_nat.simps) (auto simp add: digit_char_is_digit)
  qed
qed

lemma str_nat_length_pos: "0 < length (str_nat n)"
  by (subst str_nat.simps) simp

lemma str_nat_length1: "n < 10 \<Longrightarrow> length (str_nat n) = 1"
  by (subst str_nat.simps) simp

lemma str_nat_length2: "10 \<le> n \<Longrightarrow> n < 100 \<Longrightarrow> length (str_nat n) = 2"
  by (subst str_nat.simps) (simp add: str_nat_length1)

lemma str_nat_length3: "100 \<le> n \<Longrightarrow> 3 \<le> length (str_nat n)"
proof -
  assume h: "100 \<le> n"
  have a: "10 \<le> n div 10" using h by simp
  have b: "1 \<le> length (str_nat (n div 10 div 10))"
    using str_nat_length_pos[of "n div 10 div 10"] by (simp add: Suc_le_eq)
  have "length (str_nat (n div 10)) = length (str_nat (n div 10 div 10)) + 1"
    using a by (subst str_nat.simps) simp
  moreover have "length (str_nat n) = length (str_nat (n div 10)) + 1"
    using h by (subst str_nat.simps) simp
  ultimately show ?thesis using b by simp
qed

lemma is_digit_zero: "is_digit CHR ''0''"
  by (simp add: is_digit_def)

lemma zfill_digits: "\<forall>c \<in> set (zfill w (str_nat n)). is_digit c"
  using str_nat_digits[of n] by (auto simp: zfill_def is_digit_zero)

lemma zfill2_length_small: "n < 100 \<Longrightarrow> length (zfill 2 (str_nat n)) = 2"
proof (cases "n < 10")
  case True
  then show ?thesis by (simp add: zfill_def str_nat_length1)
next
  case False
  assume "n < 100"
  with False show ?thesis by (simp add: zfill_def str_nat_length2)
qed

lemma zfill2_length_large: "100 \<le> n \<Longrightarrow> 3 \<le> length (zfill 2 (str_nat n))"
  using str_nat_length3[of n] by (simp add: zfill_def)

lemma py_mod_range: "0 < b \<Longrightarrow> 0 \<le> py_mod a b \<and> py_mod a b < b"
proof -
  assume b: "0 < b"
  have l: "real_of_int \<lfloor>a / b\<rfloor> * b \<le> a" using floor_divide_lower[OF b] by simp
  have u: "a < (real_of_int \<lfloor>a / b\<rfloor> + 1) * b" using floor_divide_upper[OF b] by simp
  show ?thesis unfolding py_mod_def using l u by (simp add: algebra_simps)
qed

lemma py_int_mod_range: "0 < k \<Longrightarrow> 0 \<le> py_int (py_mod a (real_of_int k)) \<and> py_int (py_mod a (real_of_int k)) < k"
proof -
  assume k: "0 < k"
  then have "0 \<le> py_mod a (real_of_int k) \<and> py_mod a (real_of_int k) < real_of_int k"
    using py_mod_range[of "real_of_int k" a] by simp
  then show ?thesis by (simp add: py_int_def floor_less_iff)
qed

lemma minutes_nonneg: "0 \<le> s \<Longrightarrow> 0 \<le> py_int (py_floordiv s 60)"
  by (simp add: py_int_def py_floordiv_def)

lemma minutes_small_iff: "0 \<le> s \<Longrightarrow> py_int (py_floordiv s 60) < 100 \<longleftrightarrow> s < 6000"
proof -
  assume "0 \<le> s"
  have "\<lfloor>s / 60\<rfloor> < 100 \<longleftrightarrow> s / 60 < 100" by (simp add: floor_less_iff)
  also have "\<dots> \<longleftrightarrow> s < 6000" by auto
  finally show ?thesis using \<open>0 \<le> s\<close> by (simp add: py_int_def py_floordiv_def)
qed

text \<open>
  Claim C3, as amended. \<open>format_time\<close> maps 125.34 seconds to \<open>02:05.3\<close> and 0 seconds
  to \<open>00:00.0\<close>. For every non-negative input the output is a minutes field, a colon,
  a seconds field, a dot and one tenths digit, all fields made of decimal digits; the
  seconds field has exactly two digits; the minutes field has at least two digits, and
  exactly two precisely when the input is below 6000 seconds.
\<close>

theorem format_time_fields:
  "format_time 125.34 = ''02:05.3'' \<and> format_time 0 = ''00:00.0'' \<and>
   (\<forall>s. 0 \<le> s \<longrightarrow>
      (\<exists>mm ss t. format_time s = mm @ '':'' @ ss @ ''.'' @ t \<and>
         (\<forall>c \<in> set (mm @ ss @ t). is_digit c) \<and>
         length ss = 2 \<and> length t = 1 \<and> 2 \<le> length mm \<and>
         (length mm = 2 \<longleftrightarrow> s < 6000)))"
proof (intro conjI allI impI)
  show "format_time 125.34 = ''02:05.3''"
    by (simp add: format_time_def py_int_def py_floordiv_def py_mod_def format_02d_def
        zfill_def str_int_def str_nat.simps digit_char_def)
  show "format_time 0 = ''00:00.0''"
    by (simp add: format_time_def py_int_def py_floordiv_def py_mod_def format_02d_def
        zfill_def str_int_def str_nat.simps digit_char_def)
next
  fix s :: real
  assume s: "0 \<le> s"
  define m where "m = py_int (py_floordiv s 60)"
  define sec where "sec = py_int (py_mod s 60)"
  define tenths where "tenths = py_int (py_mod (py_mod s 60 * 10) 10)"
  have m0: "0 \<le> m" unfolding m_def using s by (rule minutes_nonneg)
  have sec_r: "0 \<le> sec \<and> sec < 60"
    unfolding sec_def using py_int_mod_range[of 60 s] by simp
  have t_r: "0 \<le> tenths \<and> tenths < 10"
    unfolding tenths_def using py_int_mod_range[of 10 "py_mod s 60 * 10"] by simp
  let ?mm = "zfill 2 (str_nat (nat m))"
  let ?ss = "zfill 2 (str_nat (nat sec))"
  let ?t = "str_nat (nat tenths)"
  have ft: "format_time s = ?mm @ '':'' @ ?ss @ ''.'' @ ?t"
    using m0 sec_r t_r
    by (simp add: format_time_def Let_def m_def sec_def tenths_def format_02d_def str_int_def)
  have dig: "\<forall>c \<in> set (?mm @ ?ss @ ?t). is_digit c"
    using zfill_digits[of 2 "nat m"] zfill_digits[of 2 "nat sec"] str_nat_digits[of "nat tenths"]
    by auto
  have lss: "length ?ss = 2" using sec_r by (intro zfill2_length_small) linarith
  have lt: "length ?t = 1" using t_r by (intro str_nat_length1) linarith
  have lmm2: "2 \<le> length ?mm"
    using zfill2_length_small[of "nat m"] zfill2_length_large[of "nat m"]
    by (cases "nat m < 100") auto
  have small: "m < 100 \<longleftrightarrow> s < 6000" unfolding m_def using s by (rule minutes_small_iff)
  have lmm: "length ?mm = 2 \<longleftrightarrow> s < 6000"
  proof
    assume "length ?mm = 2"
    then have "\<not> 100 \<le> nat m" using zfill2_length_large[of "nat m"] by auto
    then have "m < 100" using m0 by linarith
    then show "s < 6000" using small by blast
  next
    assume "s < 6000"
    then have "m < 100" using small by blast
    then have "nat m < 100" using m0 by linarith
    then show "length ?mm = 2" by (rule zfill2_length_small)
  qed
  show "\<exists>mm ss t. format_time s = mm @ '':'' @ ss @ ''.'' @ t \<and>
         (\<forall>c \<in> set (mm @ ss @ t). is_digit c) \<and>
         length ss = 2 \<and> length t = 1 \<and> 2 \<le> length mm \<and>
         (length mm = 2 \<longleftrightarrow> s < 6000)"
    using ft dig lss lt lmm2 lmm by blast
qed

text \<open>The statement at 75.5 seconds.\<close>

theorem format_time_fields_witness:
  "(0::real) \<le> 75.5 \<and>
   (\<exists>mm ss t. format_time 75.5 = mm @ '':'' @ ss @ ''.'' @ t \<and>
         (\<forall>c \<in> set (mm @ ss @ t). is_digit c) \<and>
         length ss = 2 \<and> length t = 1 \<and> 2 \<le> length mm \<and>
         (length mm = 2 \<longleftrightarrow> (75.5::real) < 6000))"
proof -
  have "(0::real) \<le> 75.5" by simp
  moreover from format_time_fields have
    "\<forall>s. 0 \<le> s \<longrightarrow>
      (\<exists>mm ss t. format_time s = mm @ '':'' @ ss @ ''.'' @ t \<and>
         (\<forall>c \<in> set (mm @ ss @ t). is_digit c) \<and>
         length ss = 2 \<and> length t = 1 \<and> 2 \<le> length mm \<and>
         (length mm = 2 \<longleftrightarrow> s < 6000))" by blast
  ultimately show ?thesis by blast
qed

text \<open>At 6000 seconds the minutes field is \<open>100\<close>: no split of the output puts two
  characters before the colon.\<close>

theorem format_time_minutes_three_digits:
  "format_time 6000 = ''100:00.0'' \<and>
   \<not> (\<exists>mm rest. format_time 6000 = mm @ '':'' @ rest \<and> length mm = 2)"
proof -
  have e: "format_time 6000 = ''100:00.0''"
    by (simp add: format_time_def py_int_def py_floordiv_def py_mod_def format_02d_def
        zfill_def str_int_def str_nat.simps digit_char_def)
  have "\<not> (\<exists>mm rest. ''100:00.0'' = mm @ '':'' @ rest \<and> length mm = 2)"
    by (auto simp: length_Suc_conv numeral_2_eq_2)
  with e show ?thesis by simp
qed

section \<open>The volume level: proofs\<close>

lemma min_sample: "(push_bit 8 (ucast (0x80 :: byte)) OR ucast (0x00 :: byte) :: 16 word) = 0x8000"
  by simp

lemma frombuffer_replicate_min:
  "frombuffer_int16 (concat (replicate n [0x00, 0x80])) = Inr (replicate n 0x8000)"
  by (induction n) simp_all

lemma np_abs_min: "np_abs 0x8000 = 0x8000"
  by (simp add: np_abs_def)

lemma sint_min: "sint (0x8000 :: 16 word) = - 32768"
  by simp

lemma sum_list_replicate_int: "sum_list (replicate n (c :: int)) = int n * c"
  by (induction n) (simp_all add: algebra_simps)

lemma volume_level_all_min:
  assumes "0 < n"
  shows "volume_level (concat (replicate n [0x00, 0x80])) = Inr (Some (- 1))"
proof -
  have "np_mean (map np_abs (replicate n (0x8000 :: 16 word))) = Some (- 32768)"
    using assms by (simp add: np_mean_def np_abs_min sum_list_replicate_int)
  then show ?thesis by (simp add: volume_level_def frombuffer_replicate_min)
qed

text \<open>
  Claim C7. The volume handed to the callback is the mean of \<open>np.abs\<close> of the samples
  divided by 32768. For a chunk of 1024 samples that all hold the lowest 16-bit value
  (bytes 00 80) the volume is -1, outside the range from 0 to 1 the claim and the
  source's own comment give: \<open>np.abs\<close> of -32768 wraps around to -32768.
\<close>

theorem volume_level_negative_full_scale:
  "volume_level (concat (replicate 1024 [0x00, 0x80])) = Inr (Some (- 1))"
  by (rule volume_level_all_min) simp

text \<open>Apart from that one sample value the volume is in range: every other magnitude is
  between 0 and 32767.\<close>

lemma np_abs_nonneg: "x \<noteq> 0x8000 \<Longrightarrow> 0 \<le> sint (np_abs x) \<and> sint (np_abs x) \<le> 32767"
proof -
  assume ne: "x \<noteq> 0x8000"
  have r: "- 32768 \<le> sint x \<and> sint x \<le> 32767"
    using sint_ge[of x] sint_lt[of x] by simp
  have "sint x \<noteq> - 32768"
  proof
    assume "sint x = - 32768"
    then have "sint x = sint (0x8000 :: 16 word)" by simp
    then have "x = 0x8000" by (rule signed_word_eqI)
    with ne show False by simp
  qed
  with r have r2: "- 32767 \<le> sint x \<and> sint x \<le> 32767" by linarith
  show ?thesis
  proof (cases "sint x < 0")
    case True
    have "sint (- x) = - sint x"
      using r2 by (simp add: sint_word_minus signed_take_bit_int_eq_self)
    then show ?thesis using True r2 by (simp add: np_abs_def)
  next
    case False
    then show ?thesis using r2 by (simp add: np_abs_def)
  qed
qed


lemma sum_abs_bounds:
  "0x8000 \<notin> set xs \<Longrightarrow>
   0 \<le> sum_list (map sint (map np_abs xs)) \<and>
   sum_list (map sint (map np_abs xs)) \<le> 32767 * int (length xs)"
proof (induction xs)
  case Nil
  show ?case by simp
next
  case (Cons x xs)
  then have "x \<noteq> 0x8000" and "0x8000 \<notin> set xs" by auto
  with Cons.IH np_abs_nonneg[of x] show ?case by (simp add: algebra_simps)
qed

lemma volume_level_in_range:
  assumes "frombuffer_int16 data = Inr audio" "audio \<noteq> []" "0x8000 \<notin> set audio"
  shows "\<exists>v. volume_level data = Inr (Some v) \<and> 0 \<le> v \<and> v < 1"
proof -
  let ?s = "sum_list (map sint (map np_abs audio))"
  let ?n = "length audio"
  from sum_abs_bounds[OF assms(3)] have b: "0 \<le> ?s" "?s \<le> 32767 * int ?n" by simp_all
  have n: "0 < real ?n" using assms(2) by simp
  have v: "volume_level data = Inr (Some (real_of_int ?s / real ?n / 32768))"
    using assms(1,2) by (simp add: volume_level_def np_mean_def)
  have lo: "0 \<le> real_of_int ?s / real ?n / 32768" using b(1) by simp
  have "real_of_int ?s \<le> 32767 * real ?n" using b(2) by (metis of_int_le_iff of_int_mult of_int_numeral of_int_of_nat_eq)
  then have "real_of_int ?s / real ?n \<le> 32767" using n by (simp add: pos_divide_le_eq)
  then have hi: "real_of_int ?s / real ?n / 32768 < 1" by simp
  from v lo hi show ?thesis by blast
qed

section \<open>The wave file of a session: proofs\<close>

lemma pack_uint_Suc:
  "pack_uint (Suc k) n =
     (if n < 256 ^ Suc k then Inr (word_of_nat n # map (\<lambda>i. word_of_nat (n div 256 div 256 ^ i)) [0 ..< k])
      else Inl StructError)"
proof -
  have "map (\<lambda>i. word_of_nat (n div 256 ^ i) :: byte) [0 ..< Suc k] =
        word_of_nat n # map (\<lambda>i. word_of_nat (n div 256 div 256 ^ i)) [0 ..< k]"
    by (simp only: upt_conv_Cons[of 0 "Suc k"] zero_less_Suc map_Suc_upt[symmetric] list.map
        map_map o_def power_0 div_by_1 power_Suc div_mult2_eq if_True)
  then show ?thesis by (simp only: pack_uint_def)
qed

lemma unat_byte_of_nat: "unat (word_of_nat n :: byte) = n mod 256"
  by (simp add: unat_of_nat)

lemma unpack_bytes:
  "unpack_uint (map (\<lambda>i. word_of_nat (n div 256 ^ i)) [0 ..< k]) = n mod 256 ^ k"
proof (induction k arbitrary: n)
  case 0
  show ?case by (simp add: unpack_uint_def)
next
  case (Suc k)
  have e: "map (\<lambda>i. word_of_nat (n div 256 ^ i) :: byte) [0 ..< Suc k] =
        word_of_nat n # map (\<lambda>i. word_of_nat (n div 256 div 256 ^ i)) [0 ..< k]"
    by (simp only: upt_conv_Cons[of 0 "Suc k"] zero_less_Suc map_Suc_upt[symmetric] list.map
        map_map o_def power_0 div_by_1 power_Suc div_mult2_eq if_True)
  have "unpack_uint (word_of_nat n # map (\<lambda>i. word_of_nat (n div 256 div 256 ^ i) :: byte) [0 ..< k])
      = n mod 256 + 256 * unpack_uint (map (\<lambda>i. word_of_nat (n div 256 div 256 ^ i) :: byte) [0 ..< k])"
    by (simp add: unpack_uint_def unat_byte_of_nat)
  also have "\<dots> = n mod 256 + 256 * (n div 256 mod 256 ^ k)" using Suc[of "n div 256"] by simp
  also have "\<dots> = n mod 256 ^ Suc k" by (simp add: mod_mult2_eq)
  finally show ?case using e by simp
qed

lemma pack_unpack:
  "pack_uint k n = Inr bs \<Longrightarrow> unpack_uint bs = n \<and> length bs = k"
  by (auto simp: pack_uint_def unpack_bytes split: if_splits)

lemma header_explicit:
  assumes "36 + n < 2 ^ 32"
  shows "\<exists>a b. pack_uint 4 (36 + n) = Inr a \<and> pack_uint 4 n = Inr b \<and>
     pack_fields (wave_header_fields 1 2 44100 n) =
       Inr (a @ WAVE @ fmt_tag @ [16, 0, 0, 0,  1, 0,  1, 0,  0x44, 0xAC, 0, 0,  0x88, 0x58, 1, 0,
              2, 0,  16, 0] @ data_tag @ b)"
proof -
  have 1: "pack_uint 4 (36 + n) = Inr (map (\<lambda>i. word_of_nat ((36 + n) div 256 ^ i)) [0 ..< 4])"
    using assms by (simp add: pack_uint_def)
  have 2: "pack_uint 4 n = Inr (map (\<lambda>i. word_of_nat (n div 256 ^ i)) [0 ..< 4])"
    using assms by (simp add: pack_uint_def)
  have 3: "pack_uint 4 16 = Inr [16, 0, 0, 0]" "pack_uint 2 1 = Inr [1, 0]"
    "pack_uint 4 44100 = Inr [0x44, 0xAC, 0, 0]" "pack_uint 4 88200 = Inr [0x88, 0x58, 1, 0]"
    "pack_uint 2 2 = Inr [2, 0]" "pack_uint 2 16 = Inr [16, 0]"
    "pack_uint 2 (Suc 0) = Inr [1, 0]"
    by (simp_all add: pack_uint_def upt_conv_Cons)
  show ?thesis
    by (simp add: wave_header_fields_def 1 2 3)
qed


lemma wave_write_ok:
  assumes "even (length data)" "36 + length data < 2 ^ 32"
  shows "\<exists>a b. pack_uint 4 (36 + length data) = Inr a \<and> pack_uint 4 (length data) = Inr b \<and>
     wave_write 1 2 44100 data =
       (None, RIFF @ a @ WAVE @ fmt_tag @ pcm_fmt @ data_tag @ b @ data)"
proof -
  from header_explicit[OF assms(2)] obtain a b where
    a: "pack_uint 4 (36 + length data) = Inr a" and b: "pack_uint 4 (length data) = Inr b" and
    h: "pack_fields (wave_header_fields 1 2 44100 (length data)) =
       Inr (a @ WAVE @ fmt_tag @ pcm_fmt @ data_tag @ b)"
    unfolding pcm_fmt_def by blast
  have dl: "length data div 2 * 2 = length data" using assms(1) by simp
  have "wave_write 1 2 44100 data = (None, RIFF @ a @ WAVE @ fmt_tag @ pcm_fmt @ data_tag @ b @ data)"
    using h by (simp add: wave_write_def Let_def dl)
  with a b show ?thesis by blast
qed

lemma read_fmt_chunk_pcm16: "read_fmt_chunk (drop 4 pcm_fmt) = Some (1, 44100, 2)"
  by (simp add: read_fmt_chunk_def pcm_fmt_def unpack_uint_def Let_def)

lemma read_chunks_data:
  assumes "length b = 4" "unpack_uint b = n"
  shows "read_chunks (Some (nch, r, sw)) (data_tag @ b @ data) =
     Some \<lparr>nchannels = nch, sampwidth = sw, framerate = r, nframes = n div (nch * sw)\<rparr>"
proof -
  have l: "\<not> length (data_tag @ b @ data) < 8" using assms(1) by (simp add: data_tag_def)
  have t: "take 4 (data_tag @ b @ data) = data_tag" by (simp add: data_tag_def)
  have s: "take 4 (drop 4 (data_tag @ b @ data)) = b" using assms(1) by (simp add: data_tag_def)
  have ne: "data_tag \<noteq> fmt_tag" by (simp add: data_tag_def fmt_tag_def)
  show ?thesis
    by (subst read_chunks.simps)
      (simp only: l t s ne assms(2) Let_def if_False if_True option.case prod.case simp_thms)
qed

lemma read_chunks_fmt:
  assumes "length b = 4" "unpack_uint b = n"
  shows "read_chunks None (fmt_tag @ pcm_fmt @ data_tag @ b @ data) =
     Some \<lparr>nchannels = 1, sampwidth = 2, framerate = 44100, nframes = n div 2\<rparr>"
proof -
  let ?bs = "fmt_tag @ pcm_fmt @ data_tag @ b @ data"
  have l: "\<not> length ?bs < 8" by (simp add: fmt_tag_def pcm_fmt_def)
  have t: "take 4 ?bs = fmt_tag" by (simp add: fmt_tag_def)
  have s: "unpack_uint (take 4 (drop 4 ?bs)) = 16"
    by (simp add: fmt_tag_def pcm_fmt_def unpack_uint_def)
  have r: "drop 8 ?bs = drop 4 pcm_fmt @ data_tag @ b @ data"
    by (simp add: fmt_tag_def pcm_fmt_def)
  have tk: "take 16 (drop 4 pcm_fmt @ data_tag @ b @ data) = drop 4 pcm_fmt"
    by (simp add: pcm_fmt_def)
  have dr: "drop 16 (drop 4 pcm_fmt @ data_tag @ b @ data) = data_tag @ b @ data"
    by (simp add: pcm_fmt_def)
  have m: "16 + 16 mod 2 = (16::nat)" by simp
  have "read_chunks None ?bs = read_chunks (Some (1, 44100, 2)) (data_tag @ b @ data)"
    by (subst read_chunks.simps)
      (simp only: l t s r tk dr m read_fmt_chunk_pcm16 Let_def if_True if_False option.case
        simp_thms)
  then show ?thesis using read_chunks_data[OF assms, of 1 44100 2 data] by simp
qed

lemma wave_read_canonical:
  assumes "length a = 4" "unpack_uint a = 36 + length data" "length b = 4"
    "unpack_uint b = length data"
  shows "wave_read (RIFF @ a @ WAVE @ fmt_tag @ pcm_fmt @ data_tag @ b @ data) =
     Some \<lparr>nchannels = 1, sampwidth = 2, framerate = 44100, nframes = length data div 2\<rparr>"
proof -
  let ?rest = "WAVE @ fmt_tag @ pcm_fmt @ data_tag @ b @ data"
  let ?bs = "RIFF @ a @ ?rest"
  have l: "\<not> length ?bs < 8" using assms(1) by (simp add: RIFF_def)
  have t: "take 4 ?bs = RIFF" by (simp add: RIFF_def)
  have s: "take 4 (drop 4 ?bs) = a" using assms(1) by (simp add: RIFF_def)
  have d: "drop 8 ?bs = ?rest" using assms(1) by (simp add: RIFF_def)
  have len: "length ?rest = 36 + length data"
    using assms(3) by (simp add: WAVE_def fmt_tag_def pcm_fmt_def data_tag_def)
  have body: "take (36 + length data) ?rest = ?rest" using len by simp
  have w: "take 4 ?rest = WAVE" by (simp add: WAVE_def)
  have dw: "drop 4 ?rest = fmt_tag @ pcm_fmt @ data_tag @ b @ data" by (simp add: WAVE_def)
  have "wave_read ?bs = read_chunks None (fmt_tag @ pcm_fmt @ data_tag @ b @ data)"
    unfolding wave_read_def by (simp only: l t s d assms(2) body w dw Let_def if_False simp_thms)
  then show ?thesis using read_chunks_fmt[OF assms(3,4), of data] by simp
qed

lemma wave_roundtrip:
  assumes "even (length data)" "36 + length data < 2 ^ 32"
  shows "fst (wave_write 1 2 44100 data) = None \<and>
     wave_read (snd (wave_write 1 2 44100 data)) =
       Some \<lparr>nchannels = 1, sampwidth = 2, framerate = 44100, nframes = length data div 2\<rparr>"
proof -
  from wave_write_ok[OF assms] obtain a b where
    a: "pack_uint 4 (36 + length data) = Inr a" and b: "pack_uint 4 (length data) = Inr b" and
    w: "wave_write 1 2 44100 data =
       (None, RIFF @ a @ WAVE @ fmt_tag @ pcm_fmt @ data_tag @ b @ data)" by blast
  from pack_unpack[OF a] pack_unpack[OF b] wave_read_canonical[of a data b] w
  show ?thesis by simp
qed


lemma frombuffer_even: "even (length d) \<Longrightarrow> \<exists>xs. frombuffer_int16 d = Inr xs"
proof (induction d rule: frombuffer_int16.induct)
  case 1
  show ?case by simp
next
  case (2 b)
  then show ?case by simp
next
  case (3 lo hi rest)
  then have "even (length rest)" by simp
  with 3 obtain xs where "frombuffer_int16 rest = Inr xs" by blast
  then show ?case by simp
qed

lemma volume_level_even: "even (length d) \<Longrightarrow> \<exists>v. volume_level d = Inr v"
  using frombuffer_even[of d] by (auto simp: volume_level_def)

lemma capture_loop_even:
  "\<forall>c \<in> set chunks. even (length c) \<Longrightarrow>
   \<exists>vs'. capture_loop r chunks vs = Inr (r\<lparr>frames := frames r @ chunks\<rparr>, vs')"
proof (induction chunks arbitrary: r vs)
  case Nil
  show ?case by simp
next
  case (Cons d rest)
  then have e: "even (length d)" and er: "\<forall>c \<in> set rest. even (length c)" by simp_all
  from volume_level_even[OF e] obtain v where v: "volume_level d = Inr v" by blast
  let ?r' = "r\<lparr>frames := frames r @ [d]\<rparr>"
  from Cons.IH[OF er, of ?r' vs] obtain vs1 where
    1: "capture_loop ?r' rest vs = Inr (?r'\<lparr>frames := frames ?r' @ rest\<rparr>, vs1)" by blast
  from Cons.IH[OF er, of ?r' "vs @ [v]"] obtain vs2 where
    2: "capture_loop ?r' rest (vs @ [v]) = Inr (?r'\<lparr>frames := frames ?r' @ rest\<rparr>, vs2)" by blast
  show ?case
  proof (cases "volume_callback r")
    case True
    then show ?thesis using v 2 by (simp add: Let_def)
  next
    case False
    then show ?thesis using 1 by (simp add: Let_def)
  qed
qed

lemma mkstemp_file: "mkstemp fs tmp t0 = Inr fs1 \<Longrightarrow> fs1 = AList.update tmp (File [] t0) fs"
  by (auto simp: mkstemp_def split: if_splits option.splits)

lemma start_recording_result:
  assumes mk: "mkstemp fs tmp t0 = Inr fs1" and ne: "chunks \<noteq> []"
    and ev: "\<forall>c \<in> set chunks. even (length c)"
  shows "\<exists>r' fs' vs. start_recording r fs tmp t0 chunks t1 = Inr (r', fs', vs) \<and>
     temp_file r' = Some tmp \<and> frames r' = chunks \<and>
     read_file fs' tmp =
       Inr (snd (wave_write (channels r) (get_sample_size (format r)) (rate r) (concat chunks)))"
proof -
  let ?r1 = "r\<lparr>is_recording := True, frames := [], pyaudio_instance := True\<rparr>\<lparr>temp_file := Some tmp\<rparr>"
  from capture_loop_even[OF ev, of ?r1 "[]"] obtain vs where
    cl: "capture_loop ?r1 chunks [] = Inr (?r1\<lparr>frames := frames ?r1 @ chunks\<rparr>, vs)" by blast
  let ?r2 = "?r1\<lparr>frames := frames ?r1 @ chunks\<rparr>\<lparr>is_recording := False\<rparr>"
  have fs1: "fs1 = AList.update tmp (File [] t0) fs" using mk by (rule mkstemp_file)
  have m: "map_of fs1 tmp = Some (File [] t0)" by (simp add: fs1 update_conv')
  have ow: "open_wb fs1 tmp t1 = Inr (AList.update tmp (File [] t1) fs1)"
    by (simp add: open_wb_def m)
  let ?c = "snd (wave_write (channels r) (get_sample_size (format r)) (rate r) (concat chunks))"
  have sv: "save_to_temp_file ?r2 fs1 t1 =
      (?r2, write_file (AList.update tmp (File [] t1) fs1) tmp ?c t1)"
    using ne by (simp add: save_to_temp_file_def ow)
  have sr: "start_recording r fs tmp t0 chunks t1 =
      Inr (?r2, write_file (AList.update tmp (File [] t1) fs1) tmp ?c t1, vs)"
    unfolding start_recording_def Let_def by (simp only: mk cl sv sum.case prod.case)
  have rd: "read_file (write_file (AList.update tmp (File [] t1) fs1) tmp ?c t1) tmp = Inr ?c"
    by (simp add: read_file_def write_file_def update_conv')
  show ?thesis using sr rd by simp
qed

lemma samples_sum: "\<forall>c \<in> set chunks. even (length c) \<Longrightarrow>
  length (concat chunks) div 2 = sum_list (map (\<lambda>c. length c div 2) chunks) \<and>
  even (length (concat chunks))"
  by (induction chunks) auto


text \<open>
  Claim C1, as amended. A recorder with the parameters the constructor sets (one channel,
  \<open>paInt16\<close>, 44100 Hz) starts recording with a temporary file that \<open>mkstemp\<close> could
  create, appends a non-empty sequence of chunks of 16-bit samples (chunks of even
  length) and is stopped. If the recorded bytes and the 36 bytes of header after the
  form length stay below 2 to the power 32, the call returns normally and the temporary
  file reads as a wave file with 1 channel, 2 bytes per sample, 44100 frames per second
  and a frame count equal to the number of samples in the chunks.
\<close>

theorem recording_session_wav:
  assumes "channels r = 1" "format r = paInt16" "rate r = 44100"
    and "mkstemp fs tmp t0 = Inr fs1"
    and "chunks \<noteq> []" "\<forall>c \<in> set chunks. even (length c)"
    and "36 + length (concat chunks) < 2 ^ 32"
  shows "\<exists>r' fs' vs bs. start_recording r fs tmp t0 chunks t1 = Inr (r', fs', vs) \<and>
     temp_file r' = Some tmp \<and> read_file fs' tmp = Inr bs \<and>
     wave_read bs = Some \<lparr>nchannels = 1, sampwidth = 2, framerate = 44100,
                           nframes = sum_list (map (\<lambda>c. length c div 2) chunks)\<rparr>"
proof -
  from start_recording_result[OF assms(4,5,6), of r t1] obtain r' fs' vs where
    sr: "start_recording r fs tmp t0 chunks t1 = Inr (r', fs', vs)" and
    tf: "temp_file r' = Some tmp" and
    rd: "read_file fs' tmp = Inr (snd (wave_write 1 2 44100 (concat chunks)))"
    using assms(1,2,3) by auto
  from samples_sum[OF assms(6)] have
    n: "length (concat chunks) div 2 = sum_list (map (\<lambda>c. length c div 2) chunks)" and
    e: "even (length (concat chunks))" by simp_all
  from wave_roundtrip[OF e assms(7)] n have
    "wave_read (snd (wave_write 1 2 44100 (concat chunks))) =
       Some \<lparr>nchannels = 1, sampwidth = 2, framerate = 44100,
             nframes = sum_list (map (\<lambda>c. length c div 2) chunks)\<rparr>" by simp
  with sr tf rd show ?thesis by blast
qed

lemma mkstemp_tmp:
  "mkstemp [(''/tmp'', Dir)] ''/tmp/rec.wav'' t
     = Inr [(''/tmp'', Dir), (''/tmp/rec.wav'', File [] t)]"
  by (simp add: mkstemp_def path_exists_def check_parent_def basename_def dirname_def sep_def
      isdir_def Let_def)

text \<open>The end-to-end scenario: three chunks of 1024 silent samples give 3072 frames.\<close>

theorem recording_session_wav_witness:
  "channels (init_recorder True) = 1 \<and> format (init_recorder True) = paInt16 \<and>
   rate (init_recorder True) = 44100 \<and>
   mkstemp [(''/tmp'', Dir)] ''/tmp/rec.wav'' 10
     = Inr [(''/tmp'', Dir), (''/tmp/rec.wav'', File [] 10)] \<and>
   replicate 3 (replicate 2048 (0 :: byte)) \<noteq> [] \<and>
   list_all (\<lambda>c. even (length c)) (replicate 3 (replicate 2048 (0 :: byte))) \<and>
   36 + length (concat (replicate 3 (replicate 2048 (0 :: byte)))) < (2 :: nat) ^ 32 \<and>
   (\<exists>r' fs' vs bs.
      start_recording (init_recorder True) [(''/tmp'', Dir)] ''/tmp/rec.wav'' 10
        (replicate 3 (replicate 2048 0)) 20 = Inr (r', fs', vs) \<and>
      temp_file r' = Some ''/tmp/rec.wav'' \<and> read_file fs' ''/tmp/rec.wav'' = Inr bs \<and>
      wave_read bs = Some \<lparr>nchannels = 1, sampwidth = 2, framerate = 44100, nframes = 3072\<rparr>)"
proof -
  let ?chunks = "replicate 3 (replicate 2048 (0 :: byte))"
  have a: "channels (init_recorder True) = 1" "format (init_recorder True) = paInt16"
    "rate (init_recorder True) = 44100" by (simp_all add: init_recorder_def)
  have ne: "?chunks \<noteq> []" by simp
  have ev: "\<forall>c \<in> set ?chunks. even (length c)" by simp
  have len: "length (concat ?chunks) = 6144" by (simp add: numeral_3_eq_3)
  have sz: "36 + length (concat ?chunks) < (2 :: nat) ^ 32" by (simp add: len)
  have sm: "sum_list (map (\<lambda>c. length c div 2) ?chunks) = 3072" by (simp add: numeral_3_eq_3)
  have la: "list_all (\<lambda>c. even (length c)) ?chunks" using ev by (simp only: list_all_iff)
  from recording_session_wav[OF a mkstemp_tmp[of 10] ne ev sz, of 20] a mkstemp_tmp[of 10] ne sz sm la
  show ?thesis by simp
qed

lemma wave_write_overflow:
  assumes "even (length data)" "2 ^ 32 \<le> 36 + length data"
  shows "wave_write 1 2 44100 data = (Some StructError, RIFF @ RIFF)"
proof -
  have dl: "length data div 2 * 2 = length data" using assms(1) by simp
  have p: "pack_uint 4 (36 + length data) = Inl StructError"
    using assms(2) by (simp add: pack_uint_def)
  have "pack_fields (wave_header_fields (Suc 0) 2 44100 (length data)) = Inl StructError"
    by (simp add: wave_header_fields_def p)
  then show ?thesis by (simp add: wave_write_def Let_def dl)
qed

lemma wave_read_riff_riff: "wave_read (RIFF @ RIFF) = None"
  by (simp add: wave_read_def RIFF_def WAVE_def Let_def)

lemma length_concat_replicate: "length (concat (replicate n c)) = n * length c"
  by (induction n) simp_all

text \<open>A session of 2097152 chunks of 1024 samples records 2 to the power 32 bytes: the
  form length does not fit its four-byte field, the write fails twice after the tag, and
  the temporary file holds the eight bytes \<open>RIFFRIFF\<close>, which do not read as a wave
  file.\<close>

theorem recording_session_four_gib:
  "\<exists>r' fs' vs.
     start_recording (init_recorder False) [(''/tmp'', Dir)] ''/tmp/rec.wav'' 10
       (replicate 2097152 (replicate 2048 0)) 20 = Inr (r', fs', vs) \<and>
     temp_file r' = Some ''/tmp/rec.wav'' \<and>
     read_file fs' ''/tmp/rec.wav'' = Inr (RIFF @ RIFF) \<and>
     wave_read (RIFF @ RIFF) = None"
proof -
  let ?chunks = "replicate 2097152 (replicate 2048 (0 :: byte))"
  have ne: "?chunks \<noteq> []" by simp
  have ev: "\<forall>c \<in> set ?chunks. even (length c)" by simp
  have len: "length (concat ?chunks) = 2097152 * 2048" by (simp add: length_concat_replicate)
  have e: "even (length (concat ?chunks))" by (simp only: len) simp
  have big: "(2 :: nat) ^ 32 \<le> 36 + length (concat ?chunks)" by (simp only: len) simp
  have a: "channels (init_recorder False) = 1" "format (init_recorder False) = paInt16"
    "rate (init_recorder False) = 44100" by (simp_all add: init_recorder_def)
  from start_recording_result[OF mkstemp_tmp[of 10] ne ev, of "init_recorder False" 20]
  obtain r' fs' vs where
    sr: "start_recording (init_recorder False) [(''/tmp'', Dir)] ''/tmp/rec.wav'' 10 ?chunks 20
       = Inr (r', fs', vs)" and
    tf: "temp_file r' = Some ''/tmp/rec.wav''" and
    rd: "read_file fs' ''/tmp/rec.wav'' = Inr (snd (wave_write 1 2 44100 (concat ?chunks)))"
    unfolding a get_sample_size.simps by blast
  from rd wave_write_overflow[OF e big] have
    "read_file fs' ''/tmp/rec.wav'' = Inr (RIFF @ RIFF)" by simp
  with sr tf wave_read_riff_riff show ?thesis by blast
qed

text \<open>
  Claim C9. With an empty frames list \<open>_save_to_temp_file\<close> returns the recorder and the
  file system as they were. A session stopped before the first chunk therefore leaves
  the file that \<open>mkstemp\<close> created: it is empty, which does not read as a wave file, and
  the frames list and the temporary path are those set at the start.
\<close>

theorem save_to_temp_file_no_frames:
  "(frames r = [] \<longrightarrow> save_to_temp_file r fs t = (r, fs)) \<and>
   (mkstemp fs tmp t0 = Inr fs1 \<longrightarrow>
      (\<exists>r'. start_recording r fs tmp t0 [] t1 = Inr (r', fs1, []) \<and>
         frames r' = [] \<and> temp_file r' = Some tmp \<and>
         read_file fs1 tmp = Inr [] \<and> wave_read [] = None))"
proof (intro conjI impI)
  assume "frames r = []"
  then show "save_to_temp_file r fs t = (r, fs)" by (simp add: save_to_temp_file_def)
next
  assume mk: "mkstemp fs tmp t0 = Inr fs1"
  have fs1: "fs1 = AList.update tmp (File [] t0) fs" using mk by (rule mkstemp_file)
  have rd: "read_file fs1 tmp = Inr []" by (simp add: fs1 read_file_def update_conv')
  have wr: "wave_read [] = None" by (simp add: wave_read_def)
  let ?r' = "r\<lparr>is_recording := True, frames := [], pyaudio_instance := True,
      temp_file := Some tmp, is_recording := False\<rparr>"
  have "start_recording r fs tmp t0 [] t1 = Inr (?r', fs1, [])"
    by (simp add: start_recording_def Let_def mk save_to_temp_file_def)
  with rd wr show "\<exists>r'. start_recording r fs tmp t0 [] t1 = Inr (r', fs1, []) \<and>
         frames r' = [] \<and> temp_file r' = Some tmp \<and>
         read_file fs1 tmp = Inr [] \<and> wave_read [] = None" by simp
qed

text \<open>The statement for a fresh recorder and the temporary file \<open>/tmp/rec.wav\<close>.\<close>

theorem save_to_temp_file_no_frames_witness:
  "frames (init_recorder True) = [] \<and>
   save_to_temp_file (init_recorder True) [(''/tmp'', Dir)] 5 = (init_recorder True, [(''/tmp'', Dir)]) \<and>
   mkstemp [(''/tmp'', Dir)] ''/tmp/rec.wav'' 10
     = Inr [(''/tmp'', Dir), (''/tmp/rec.wav'', File [] 10)] \<and>
   (\<exists>r'. start_recording (init_recorder True) [(''/tmp'', Dir)] ''/tmp/rec.wav'' 10 [] 20
        = Inr (r', [(''/tmp'', Dir), (''/tmp/rec.wav'', File [] 10)], []) \<and>
      frames r' = [] \<and> temp_file r' = Some ''/tmp/rec.wav'' \<and>
      read_file [(''/tmp'', Dir), (''/tmp/rec.wav'', File [] 10)] ''/tmp/rec.wav'' = Inr [] \<and>
      wave_read [] = None)"
proof -
  have f: "frames (init_recorder True) = []" by (simp add: init_recorder_def)
  from save_to_temp_file_no_frames[of "init_recorder True" "[(''/tmp'', Dir)]" 5
      "''/tmp/rec.wav''" 10 "[(''/tmp'', Dir), (''/tmp/rec.wav'', File [] 10)]" 20]
    f mkstemp_tmp[of 10]
  show ?thesis by simp
qed

section \<open>Listing the recordings: proofs\<close>

lemma those_map_Some:
  "\<forall>x \<in> set xs. f x \<noteq> None \<Longrightarrow> \<exists>ys. those (map f xs) = Some ys"
  by (induction xs) auto

lemma those_map_zip:
  "those (map f xs) = Some ys \<Longrightarrow>
   length ys = length xs \<and> (\<forall>p \<in> set (zip ys xs). f (snd p) = Some (fst p))"
proof (induction xs arbitrary: ys)
  case Nil
  then show ?case by simp
next
  case (Cons x xs)
  from Cons.prems obtain y ys' where y: "f x = Some y" and t: "those (map f xs) = Some ys'"
    and ys: "ys = y # ys'"
    by (auto split: option.splits)
  from Cons.IH[OF t] y ys show ?case by auto
qed

lemma sort_reverse_mset: "mset (sort_reverse key xs) = mset xs"
  by (simp add: sort_reverse_def)

lemma sort_reverse_set: "set (sort_reverse key xs) = set xs"
  by (simp add: sort_reverse_def)

lemma sort_reverse_sorted: "sorted_wrt (\<lambda>x y. key y \<le> key x) (sort_reverse key xs)"
proof -
  have "sorted (map key (sort_key key (rev xs)))" by (rule sorted_sort_key)
  then have "sorted_wrt (\<lambda>x y. key x \<le> key y) (sort_key key (rev xs))"
    by (simp add: sorted_map)
  then show ?thesis by (simp add: sort_reverse_def sorted_wrt_rev)
qed

lemma sort_reverse_stable:
  "filter (\<lambda>x. key x = k) (sort_reverse key xs) = filter (\<lambda>x. key x = k) xs"
proof -
  have "filter (\<lambda>x. key x = k) (sort_reverse key xs)
      = rev (filter (\<lambda>x. key x = k) (sort_key key (rev xs)))"
    by (simp only: sort_reverse_def rev_filter)
  also have "\<dots> = rev (filter (\<lambda>x. key x = k) (rev xs))" by (simp only: sort_key_stable)
  also have "\<dots> = filter (\<lambda>x. key x = k) xs" by (simp only: rev_filter rev_rev_ident)
  finally show ?thesis .
qed

lemma sorted_wrt_distinct:
  "sorted_wrt P xs \<Longrightarrow> distinct xs \<Longrightarrow> sorted_wrt (\<lambda>a b. P a b \<and> a \<noteq> b) xs"
  by (induction xs) auto

lemma listdir_names:
  "listdir fs d = Inr names \<Longrightarrow>
   names = map basename
     (filter (\<lambda>p. p \<noteq> d \<and> basename p \<noteq> [] \<and> path_join d (basename p) = p) (map fst fs))"
proof (cases "map_of fs d")
  case None
  assume "listdir fs d = Inr names"
  with None show ?thesis by (simp add: listdir_def)
next
  case (Some n)
  assume l: "listdir fs d = Inr names"
  show ?thesis
  proof (cases n)
    case (File c m)
    with Some l show ?thesis by (simp add: listdir_def)
  next
    case Dir
    with Some l show ?thesis by (simp add: listdir_def)
  qed
qed

lemma listdir_distinct:
  assumes "distinct (map fst fs)" "listdir fs d = Inr names"
  shows "distinct names"
proof -
  define Q where "Q = (\<lambda>p. p \<noteq> d \<and> basename p \<noteq> [] \<and> path_join d (basename p) = p)"
  from listdir_names[OF assms(2)] have n: "names = map basename (filter Q (map fst fs))"
    unfolding Q_def .
  have "inj_on basename (set (filter Q (map fst fs)))"
  proof (rule inj_onI)
    fix p q
    assume "p \<in> set (filter Q (map fst fs))" "q \<in> set (filter Q (map fst fs))"
      and e: "basename p = basename q"
    then have "Q p" "Q q" by simp_all
    then have "p = path_join d (basename p)" "q = path_join d (basename q)"
      unfolding Q_def by metis+
    with e show "p = q" by metis
  qed
  moreover have "distinct (filter Q (map fst fs))" using assms(1) by (rule distinct_filter)
  ultimately show ?thesis unfolding n by (simp only: distinct_map)
qed


text \<open>
  Claim C4, as amended. Without a recordings directory \<open>get_saved_recordings\<close> returns the
  empty list. With one, it returns exactly the listed names that end in \<open>.wav\<close> and name
  a regular file, each as often as the listing has it (once, when the paths of the file
  system are distinct), in order of non-increasing modification time; the files of any
  one modification time come in the order in which the listing has them; the order is
  strictly descending when no two of the returned files share a modification time.
\<close>

theorem get_saved_recordings_sorted:
  "(\<not> path_exists fs (recordings_dir fm) \<longrightarrow> get_saved_recordings fm fs = Inr []) \<and>
   (isdir fs (recordings_dir fm) \<longrightarrow>
     (\<exists>names xs. listdir fs (recordings_dir fm) = Inr names \<and>
        get_saved_recordings fm fs = Inr xs \<and>
        mset xs = mset (filter (\<lambda>f. endswith f ''.wav'' \<and>
                                      isfile fs (path_join (recordings_dir fm) f)) names) \<and>
        sorted_wrt (\<lambda>a b. \<exists>ma mb. getmtime fs (path_join (recordings_dir fm) a) = Some ma \<and>
                             getmtime fs (path_join (recordings_dir fm) b) = Some mb \<and>
                             mb \<le> ma) xs \<and>
        (\<forall>k. filter (\<lambda>f. getmtime fs (path_join (recordings_dir fm) f) = Some k) xs
              = filter (\<lambda>f. getmtime fs (path_join (recordings_dir fm) f) = Some k)
                  (filter (\<lambda>f. endswith f ''.wav'' \<and>
                                isfile fs (path_join (recordings_dir fm) f)) names)) \<and>
        (distinct (map fst fs) \<longrightarrow> distinct xs) \<and>
        (distinct (map fst fs) \<and>
         inj_on (\<lambda>f. getmtime fs (path_join (recordings_dir fm) f)) (set xs) \<longrightarrow>
           sorted_wrt (\<lambda>a b. \<exists>ma mb. getmtime fs (path_join (recordings_dir fm) a) = Some ma \<and>
                             getmtime fs (path_join (recordings_dir fm) b) = Some mb \<and>
                             mb < ma) xs)))"
proof (intro conjI impI)
  assume "\<not> path_exists fs (recordings_dir fm)"
  then show "get_saved_recordings fm fs = Inr []" by (simp add: get_saved_recordings_def)
next
  let ?d = "recordings_dir fm"
  let ?mt = "\<lambda>f. getmtime fs (path_join ?d f)"
  let ?W = "\<lambda>a b. \<exists>ma mb. ?mt a = Some ma \<and> ?mt b = Some mb \<and> mb \<le> ma"
  let ?S = "\<lambda>a b. \<exists>ma mb. ?mt a = Some ma \<and> ?mt b = Some mb \<and> mb < ma"
  assume dir: "isdir fs ?d"
  then have ex: "path_exists fs ?d" by (simp add: isdir_def path_exists_def)
  from dir obtain names where ld: "listdir fs ?d = Inr names"
    by (simp add: listdir_def isdir_def)
  let ?recs = "filter (\<lambda>f. endswith f ''.wav'' \<and> isfile fs (path_join ?d f)) names"
  have recs: "filter (is_recording_name fm fs) names = ?recs"
    by (rule filter_cong) (simp_all add: is_recording_name_def)
  have "\<forall>x \<in> set ?recs. recording_mtime fm fs x \<noteq> None"
    by (auto simp: recording_mtime_def getmtime_def isfile_def split: option.splits node.splits)
  from those_map_Some[OF this] obtain keys where
    th: "those (map (recording_mtime fm fs) ?recs) = Some keys" by blast
  let ?z = "zip keys ?recs"
  let ?xs = "map snd (sort_reverse fst ?z)"
  have g: "get_saved_recordings fm fs = Inr ?xs"
    using ex ld th by (simp add: get_saved_recordings_def Let_def recs)
  from those_map_zip[OF th] have len: "length keys = length ?recs"
    and key: "\<forall>p \<in> set ?z. recording_mtime fm fs (snd p) = Some (fst p)" by simp_all
  have ms: "mset ?xs = mset ?recs"
  proof -
    have "mset ?xs = image_mset snd (mset (sort_reverse fst ?z))" by simp
    also have "\<dots> = image_mset snd (mset ?z)" by (simp only: sort_reverse_mset)
    also have "\<dots> = mset (map snd ?z)" by simp
    also have "\<dots> = mset ?recs" using len by simp
    finally show ?thesis .
  qed
  have sw: "sorted_wrt ?W ?xs"
  proof -
    have 1: "sorted_wrt (\<lambda>x y. fst y \<le> fst x) (sort_reverse fst ?z)" by (rule sort_reverse_sorted)
    have "sorted_wrt (\<lambda>p q. ?W (snd p) (snd q)) (sort_reverse fst ?z)"
    proof (rule sorted_wrt_mono_rel[OF _ 1])
      fix p q
      assume "p \<in> set (sort_reverse fst ?z)" "q \<in> set (sort_reverse fst ?z)" "fst q \<le> fst p"
      then have "p \<in> set ?z" "q \<in> set ?z" by (simp_all only: sort_reverse_set)
      with key have "?mt (snd p) = Some (fst p)" "?mt (snd q) = Some (fst q)"
        by (simp_all add: recording_mtime_def)
      with \<open>fst q \<le> fst p\<close> show "?W (snd p) (snd q)" by blast
    qed
    then show ?thesis by (simp add: sorted_wrt_map)
  qed
  have stab: "\<forall>k. filter (\<lambda>f. ?mt f = Some k) ?xs = filter (\<lambda>f. ?mt f = Some k) ?recs"
  proof
    fix k
    have "filter (\<lambda>f. ?mt f = Some k) ?xs
        = map snd (filter (\<lambda>p. ?mt (snd p) = Some k) (sort_reverse fst ?z))"
      by (simp add: filter_map o_def)
    also have "filter (\<lambda>p. ?mt (snd p) = Some k) (sort_reverse fst ?z)
        = filter (\<lambda>p. fst p = k) (sort_reverse fst ?z)"
    proof (rule filter_cong[OF refl])
      fix p assume "p \<in> set (sort_reverse fst ?z)"
      then have "p \<in> set ?z" by (simp only: sort_reverse_set)
      with key have "?mt (snd p) = Some (fst p)" by (simp add: recording_mtime_def)
      then show "(?mt (snd p) = Some k) = (fst p = k)" by simp
    qed
    also have "\<dots> = filter (\<lambda>p. fst p = k) ?z" by (rule sort_reverse_stable)
    also have "\<dots> = filter (\<lambda>p. ?mt (snd p) = Some k) ?z"
    proof (rule filter_cong[OF refl])
      fix p assume "p \<in> set ?z"
      with key have "?mt (snd p) = Some (fst p)" by (simp add: recording_mtime_def)
      then show "(fst p = k) = (?mt (snd p) = Some k)" by simp
    qed
    also have "map snd \<dots> = filter (\<lambda>f. ?mt f = Some k) (map snd ?z)"
      by (simp add: filter_map o_def)
    also have "map snd ?z = ?recs" using len by simp
    finally show "filter (\<lambda>f. ?mt f = Some k) ?xs = filter (\<lambda>f. ?mt f = Some k) ?recs" .
  qed
  have dis: "distinct (map fst fs) \<longrightarrow> distinct ?xs"
  proof
    assume "distinct (map fst fs)"
    from listdir_distinct[OF this ld] have "distinct ?recs" by simp
    with mset_eq_imp_distinct_iff[OF ms] show "distinct ?xs" by simp
  qed
  have st: "distinct (map fst fs) \<and> inj_on ?mt (set ?xs) \<longrightarrow> sorted_wrt ?S ?xs"
  proof
    assume a: "distinct (map fst fs) \<and> inj_on ?mt (set ?xs)"
    with dis have d: "distinct ?xs" by blast
    from sorted_wrt_distinct[OF sw d] have 2: "sorted_wrt (\<lambda>a b. ?W a b \<and> a \<noteq> b) ?xs" .
    show "sorted_wrt ?S ?xs"
    proof (rule sorted_wrt_mono_rel[OF _ 2])
      fix x y
      assume x: "x \<in> set ?xs" and y: "y \<in> set ?xs" and w: "?W x y \<and> x \<noteq> y"
      then obtain ma mb where m: "?mt x = Some ma" "?mt y = Some mb" "mb \<le> ma" by blast
      from a x y w have "?mt x \<noteq> ?mt y" by (auto dest: inj_onD)
      with m have "mb < ma" by simp
      with m show "?S x y" by blast
    qed
  qed
  from ld g ms sw stab dis st show "\<exists>names xs. listdir fs ?d = Inr names \<and>
        get_saved_recordings fm fs = Inr xs \<and>
        mset xs = mset (filter (\<lambda>f. endswith f ''.wav'' \<and> isfile fs (path_join ?d f)) names) \<and>
        sorted_wrt ?W xs \<and>
        (\<forall>k. filter (\<lambda>f. ?mt f = Some k) xs
              = filter (\<lambda>f. ?mt f = Some k)
                  (filter (\<lambda>f. endswith f ''.wav'' \<and> isfile fs (path_join ?d f)) names)) \<and>
        (distinct (map fst fs) \<longrightarrow> distinct xs) \<and>
        (distinct (map fst fs) \<and> inj_on ?mt (set xs) \<longrightarrow> sorted_wrt ?S xs)"
    by (intro exI[of _ names] exI[of _ ?xs] conjI)
qed


lemma listdir_demo:
  "listdir demo_fs ''recordings'' = Inr [''a.wav'', ''notes.txt'', ''b.wav'']"
  by (simp add: listdir_def demo_fs_def basename_def path_join_def sep_def)

lemma get_saved_recordings_demo:
  "get_saved_recordings \<lparr>recordings_dir = ''recordings''\<rparr> demo_fs = Inr [''b.wav'', ''a.wav'']"
  by (simp add: get_saved_recordings_def listdir_def is_recording_name_def endswith_def
      recording_mtime_def sort_reverse_def Let_def
      demo_fs_def path_exists_def isfile_def getmtime_def path_join_def sep_def basename_def)

lemma tie_fs_listing:
  "get_saved_recordings \<lparr>recordings_dir = ''recordings''\<rparr> tie_fs = Inr [''a.wav'', ''b.wav'']"
  by (simp add: get_saved_recordings_def listdir_def is_recording_name_def endswith_def
      recording_mtime_def sort_reverse_def Let_def
      tie_fs_def path_exists_def isfile_def getmtime_def path_join_def sep_def basename_def)


text \<open>The statement for a missing directory, and for a directory with two recordings (of
  times 5 and 7) and a text file.\<close>

theorem get_saved_recordings_sorted_witness:
  "\<not> path_exists demo_fs (recordings_dir \<lparr>recordings_dir = ''missing''\<rparr>) \<and>
   get_saved_recordings \<lparr>recordings_dir = ''missing''\<rparr> demo_fs = Inr [] \<and>
   isdir demo_fs (recordings_dir \<lparr>recordings_dir = ''recordings''\<rparr>) \<and>
   distinct (map fst demo_fs) \<and>
   listdir demo_fs ''recordings'' = Inr [''a.wav'', ''notes.txt'', ''b.wav''] \<and>
   get_saved_recordings \<lparr>recordings_dir = ''recordings''\<rparr> demo_fs = Inr [''b.wav'', ''a.wav''] \<and>
   inj_on (\<lambda>f. getmtime demo_fs (path_join ''recordings'' f)) (set [''b.wav'', ''a.wav'']) \<and>
   sorted_wrt (\<lambda>a b. \<exists>ma mb. getmtime demo_fs (path_join ''recordings'' a) = Some ma \<and>
                        getmtime demo_fs (path_join ''recordings'' b) = Some mb \<and> mb < ma)
     [''b.wav'', ''a.wav'']"
proof -
  let ?fm = "\<lparr>recordings_dir = ''recordings''\<rparr>"
  let ?no = "\<lparr>recordings_dir = ''missing''\<rparr>"
  have a: "\<not> path_exists demo_fs (recordings_dir ?no)"
    by (simp add: demo_fs_def path_exists_def)
  have b: "isdir demo_fs (recordings_dir ?fm)" by (simp add: demo_fs_def isdir_def)
  have c: "distinct (map fst demo_fs)" by (simp add: demo_fs_def)
  have i: "inj_on (\<lambda>f. getmtime demo_fs (path_join ''recordings'' f)) (set [''b.wav'', ''a.wav''])"
    by (simp add: demo_fs_def getmtime_def path_join_def sep_def)
  from get_saved_recordings_sorted[of demo_fs ?no] a
  have 1: "get_saved_recordings ?no demo_fs = Inr []" by blast
  from get_saved_recordings_sorted[of demo_fs ?fm] b obtain names xs where
    g: "get_saved_recordings ?fm demo_fs = Inr xs" and
    s: "distinct (map fst demo_fs) \<and>
         inj_on (\<lambda>f. getmtime demo_fs (path_join (recordings_dir ?fm) f)) (set xs) \<longrightarrow>
           sorted_wrt (\<lambda>a b. \<exists>ma mb. getmtime demo_fs (path_join (recordings_dir ?fm) a) = Some ma \<and>
                             getmtime demo_fs (path_join (recordings_dir ?fm) b) = Some mb \<and>
                             mb < ma) xs"
    by blast
  from g get_saved_recordings_demo have xs: "xs = [''b.wav'', ''a.wav'']" by simp
  from s c i have 2: "sorted_wrt (\<lambda>a b. \<exists>ma mb. getmtime demo_fs (path_join ''recordings'' a) = Some ma \<and>
                        getmtime demo_fs (path_join ''recordings'' b) = Some mb \<and> mb < ma)
     [''b.wav'', ''a.wav'']" unfolding xs by simp
  from a 1 b c listdir_demo get_saved_recordings_demo i 2 show ?thesis by blast
qed

text \<open>Two recordings with the same modification time are returned in listing order: the
  result is not strictly descending.\<close>

theorem get_saved_recordings_tie:
  "get_saved_recordings \<lparr>recordings_dir = ''recordings''\<rparr> tie_fs = Inr [''a.wav'', ''b.wav''] \<and>
   getmtime tie_fs (path_join ''recordings'' ''a.wav'') = Some 5 \<and>
   getmtime tie_fs (path_join ''recordings'' ''b.wav'') = Some 5 \<and>
   \<not> sorted_wrt (\<lambda>a b. \<exists>ma mb. getmtime tie_fs (path_join ''recordings'' a) = Some ma \<and>
                        getmtime tie_fs (path_join ''recordings'' b) = Some mb \<and> mb < ma)
        [''a.wav'', ''b.wav'']"
proof -
  have a: "getmtime tie_fs (path_join ''recordings'' ''a.wav'') = Some 5"
    by (simp add: tie_fs_def getmtime_def path_join_def sep_def)
  have b: "getmtime tie_fs (path_join ''recordings'' ''b.wav'') = Some 5"
    by (simp add: tie_fs_def getmtime_def path_join_def sep_def)
  have "\<not> sorted_wrt (\<lambda>a b. \<exists>ma mb. getmtime tie_fs (path_join ''recordings'' a) = Some ma \<and>
                        getmtime tie_fs (path_join ''recordings'' b) = Some mb \<and> mb < ma)
        [''a.wav'', ''b.wav'']" using a b by simp
  with a b tie_fs_listing show ?thesis by blast
qed

section \<open>The generated file name: proofs\<close>

lemma digit_val_digit_char: "d < 10 \<Longrightarrow> digit_val (digit_char d) = d"
proof -
  assume "d < 10"
  then have "d \<in> {0, 1, 2, 3, 4, 5, 6, 7, 8, 9}" by auto
  then show ?thesis by (auto simp: digit_val_def digit_char_def)
qed

lemma nat_of_digits_snoc: "nat_of_digits (s @ [c]) = 10 * nat_of_digits s + digit_val c"
  by (simp add: nat_of_digits_def)

lemma nat_of_digits_str_nat: "nat_of_digits (str_nat n) = n"
proof (induction n rule: str_nat.induct)
  case (1 n)
  show ?case
  proof (cases "n < 10")
    case True
    then show ?thesis
      by (subst str_nat.simps) (simp add: nat_of_digits_def digit_val_digit_char)
  next
    case False
    with 1 have "nat_of_digits (str_nat (n div 10)) = n div 10" by simp
    then show ?thesis using False
      by (subst str_nat.simps) (simp add: nat_of_digits_snoc digit_val_digit_char)
  qed
qed

lemma nat_of_digits_zeros: "nat_of_digits (replicate k CHR ''0'' @ s) = nat_of_digits s"
proof (induction k)
  case 0
  show ?case by simp
next
  case (Suc k)
  have "foldl (\<lambda>acc c. 10 * acc + digit_val c) 0 (CHR ''0'' # replicate k CHR ''0'' @ s)
      = foldl (\<lambda>acc c. 10 * acc + digit_val c) 0 (replicate k CHR ''0'' @ s)"
    by (simp add: digit_val_def)
  with Suc show ?case by (simp add: nat_of_digits_def)
qed

lemma nat_of_digits_zfill: "nat_of_digits (zfill w (str_nat n)) = n"
  by (simp add: zfill_def nat_of_digits_zeros nat_of_digits_str_nat)

lemma str_nat_length_le: "0 < w \<Longrightarrow> n < 10 ^ w \<Longrightarrow> length (str_nat n) \<le> w"
proof (induction w arbitrary: n)
  case 0
  then show ?case by simp
next
  case (Suc w)
  show ?case
  proof (cases "n < 10")
    case True
    then show ?thesis by (simp add: str_nat_length1)
  next
    case False
    then have w: "0 < w" using Suc.prems(2) by (cases w) auto
    have "n div 10 < 10 ^ w" using Suc.prems(2) by (simp add: less_mult_imp_div_less mult.commute)
    from Suc.IH[OF w this] have "length (str_nat (n div 10)) \<le> w" .
    moreover have "length (str_nat n) = length (str_nat (n div 10)) + 1"
      using False by (subst str_nat.simps) simp
    ultimately show ?thesis by simp
  qed
qed

lemma zfill_length: "0 < w \<Longrightarrow> n < 10 ^ w \<Longrightarrow> length (zfill w (str_nat n)) = w"
  using str_nat_length_le[of w n] by (simp add: zfill_def)

lemma is_digit_not_sep: "is_digit c \<Longrightarrow> c \<noteq> sep"
  by (auto simp: is_digit_def sep_def)


lemma zfill_inj: "zfill w (str_nat a) = zfill w (str_nat b) \<Longrightarrow> a = b"
  by (metis nat_of_digits_zfill)

lemma valid_datetime_lengths:
  assumes "valid_datetime d"
  shows "length (zfill 4 (str_nat (year d))) = 4" "length (zfill 2 (str_nat (month d))) = 2"
    "length (zfill 2 (str_nat (day d))) = 2" "length (zfill 2 (str_nat (hour d))) = 2"
    "length (zfill 2 (str_nat (minute d))) = 2" "length (zfill 2 (str_nat (second d))) = 2"
  using assms by (simp_all add: valid_datetime_def zfill_length)

lemma strftime_inj:
  assumes "valid_datetime d1" "valid_datetime d2" "strftime d1 = strftime d2"
  shows "d1 = d2"
proof -
  note l1 = valid_datetime_lengths[OF assms(1)] and l2 = valid_datetime_lengths[OF assms(2)]
  let ?Y = "\<lambda>d. zfill 4 (str_nat (year d))" and ?M = "\<lambda>d. zfill 2 (str_nat (month d))"
  let ?D = "\<lambda>d. zfill 2 (str_nat (day d))" and ?h = "\<lambda>d. zfill 2 (str_nat (hour d))"
  let ?m = "\<lambda>d. zfill 2 (str_nat (minute d))" and ?s = "\<lambda>d. zfill 2 (str_nat (second d))"
  have e0: "?Y d1 @ (?M d1 @ ?D d1 @ ''_'' @ ?h d1 @ ?m d1 @ ?s d1)
      = ?Y d2 @ (?M d2 @ ?D d2 @ ''_'' @ ?h d2 @ ?m d2 @ ?s d2)"
    using assms(3) unfolding strftime_def by simp
  have eY: "?Y d1 = ?Y d2" and e1: "?M d1 @ (?D d1 @ ''_'' @ ?h d1 @ ?m d1 @ ?s d1)
      = ?M d2 @ (?D d2 @ ''_'' @ ?h d2 @ ?m d2 @ ?s d2)"
    using append_eq_append_conv[THEN iffD1, OF _ e0] l1(1) l2(1) by simp_all
  have eM: "?M d1 = ?M d2" and e2: "?D d1 @ (''_'' @ ?h d1 @ ?m d1 @ ?s d1)
      = ?D d2 @ (''_'' @ ?h d2 @ ?m d2 @ ?s d2)"
    using append_eq_append_conv[THEN iffD1, OF _ e1] l1(2) l2(2) by simp_all
  have eD: "?D d1 = ?D d2" and e3: "''_'' @ ?h d1 @ ?m d1 @ ?s d1 = ''_'' @ ?h d2 @ ?m d2 @ ?s d2"
    using append_eq_append_conv[THEN iffD1, OF _ e2] l1(3) l2(3) by simp_all
  have e4: "?h d1 @ (?m d1 @ ?s d1) = ?h d2 @ (?m d2 @ ?s d2)" using e3 by simp
  have eh: "?h d1 = ?h d2" and e5: "?m d1 @ ?s d1 = ?m d2 @ ?s d2"
    using append_eq_append_conv[THEN iffD1, OF _ e4] l1(4) l2(4) by simp_all
  have em: "?m d1 = ?m d2" and es: "?s d1 = ?s d2"
    using append_eq_append_conv[THEN iffD1, OF _ e5] l1(5) l2(5) by simp_all
  from eY eM eD eh em es have
    "zfill 4 (str_nat (year d1)) = zfill 4 (str_nat (year d2)) \<and>
     zfill 2 (str_nat (month d1)) = zfill 2 (str_nat (month d2)) \<and>
     zfill 2 (str_nat (day d1)) = zfill 2 (str_nat (day d2)) \<and>
     zfill 2 (str_nat (hour d1)) = zfill 2 (str_nat (hour d2)) \<and>
     zfill 2 (str_nat (minute d1)) = zfill 2 (str_nat (minute d2)) \<and>
     zfill 2 (str_nat (second d1)) = zfill 2 (str_nat (second d2))"
    by blast
  then have "year d1 = year d2 \<and> month d1 = month d2 \<and> day d1 = day d2 \<and>
     hour d1 = hour d2 \<and> minute d1 = minute d2 \<and> second d1 = second d2"
    by (blast dest: zfill_inj)
  then show ?thesis by simp
qed

lemma path_join_inj:
  assumes "b1 \<noteq> []" "hd b1 \<noteq> sep" "b2 \<noteq> []" "hd b2 \<noteq> sep" "path_join a b1 = path_join a b2"
  shows "b1 = b2"
  using assms by (auto simp: path_join_def split: if_splits)

lemma default_filename_head:
  "default_filename d \<noteq> [] \<and> hd (default_filename d) \<noteq> sep"
  by (simp add: default_filename_def sep_def)

lemma save_recording_generated:
  assumes "dest = None \<or> dest = Some []" "save_recording fm fs now src dest = Inr (p, fs')"
  shows "p = path_join (recordings_dir fm) (default_filename now)"
proof -
  let ?g = "path_join (recordings_dir fm) (default_filename now)"
  have d: "(case dest of None \<Rightarrow> ?g | Some d \<Rightarrow> (if d = [] then ?g else d)) = ?g"
    using assms(1) by auto
  from assms(2) show ?thesis
    unfolding save_recording_def Let_def d by (auto split: sum.splits)
qed

text \<open>
  Claim C6. For a current time that is a valid date and time of a four-digit year, the
  name \<open>save_recording\<close> generates is \<open>recording_\<close>, eight digits, an underscore, six
  digits and \<open>.wav\<close>, the digits being year, month, day, hour, minute and second of
  that time; a call with no destination (\<open>None\<close> or the empty string) that returns,
  returns the recordings directory joined with that name; and two such times that
  differ give different names and different paths.
\<close>

theorem default_filename_timestamp:
  "(valid_datetime now \<longrightarrow>
      (\<exists>Y M D h m s.
         default_filename now = ''recording_'' @ Y @ M @ D @ ''_'' @ h @ m @ s @ ''.wav'' \<and>
         length Y = 4 \<and> length M = 2 \<and> length D = 2 \<and>
         length h = 2 \<and> length m = 2 \<and> length s = 2 \<and>
         list_all is_digit (Y @ M @ D @ h @ m @ s) \<and>
         nat_of_digits Y = year now \<and> nat_of_digits M = month now \<and>
         nat_of_digits D = day now \<and> nat_of_digits h = hour now \<and>
         nat_of_digits m = minute now \<and> nat_of_digits s = second now)) \<and>
   ((dest = None \<or> dest = Some []) \<and> save_recording fm fs now src dest = Inr (p, fs') \<longrightarrow>
      p = path_join (recordings_dir fm) (default_filename now)) \<and>
   (valid_datetime d1 \<and> valid_datetime d2 \<and> d1 \<noteq> d2 \<longrightarrow>
      default_filename d1 \<noteq> default_filename d2 \<and>
      path_join (recordings_dir fm) (default_filename d1)
        \<noteq> path_join (recordings_dir fm) (default_filename d2))"
proof (intro conjI impI)
  assume v: "valid_datetime now"
  note l = valid_datetime_lengths[OF v]
  have dg: "list_all is_digit (zfill 4 (str_nat (year now)) @ zfill 2 (str_nat (month now)) @
      zfill 2 (str_nat (day now)) @ zfill 2 (str_nat (hour now)) @
      zfill 2 (str_nat (minute now)) @ zfill 2 (str_nat (second now)))"
    using zfill_digits by (auto simp: list_all_iff)
  show "\<exists>Y M D h m s.
         default_filename now = ''recording_'' @ Y @ M @ D @ ''_'' @ h @ m @ s @ ''.wav'' \<and>
         length Y = 4 \<and> length M = 2 \<and> length D = 2 \<and>
         length h = 2 \<and> length m = 2 \<and> length s = 2 \<and>
         list_all is_digit (Y @ M @ D @ h @ m @ s) \<and>
         nat_of_digits Y = year now \<and> nat_of_digits M = month now \<and>
         nat_of_digits D = day now \<and> nat_of_digits h = hour now \<and>
         nat_of_digits m = minute now \<and> nat_of_digits s = second now"
    apply (rule exI[of _ "zfill 4 (str_nat (year now))"])
    apply (rule exI[of _ "zfill 2 (str_nat (month now))"])
    apply (rule exI[of _ "zfill 2 (str_nat (day now))"])
    apply (rule exI[of _ "zfill 2 (str_nat (hour now))"])
    apply (rule exI[of _ "zfill 2 (str_nat (minute now))"])
    apply (rule exI[of _ "zfill 2 (str_nat (second now))"])
    using l dg by (simp add: default_filename_def strftime_def nat_of_digits_zfill)
next
  assume "(dest = None \<or> dest = Some []) \<and> save_recording fm fs now src dest = Inr (p, fs')"
  then show "p = path_join (recordings_dir fm) (default_filename now)"
    using save_recording_generated by blast
next
  assume a: "valid_datetime d1 \<and> valid_datetime d2 \<and> d1 \<noteq> d2"
  show "default_filename d1 \<noteq> default_filename d2"
  proof
    assume "default_filename d1 = default_filename d2"
    then have "strftime d1 = strftime d2" by (simp add: default_filename_def)
    with a strftime_inj show False by blast
  qed
  then show "path_join (recordings_dir fm) (default_filename d1)
        \<noteq> path_join (recordings_dir fm) (default_filename d2)"
    using path_join_inj[of "default_filename d1" "default_filename d2" "recordings_dir fm"]
      default_filename_head[of d1] default_filename_head[of d2] by blast
qed


lemma default_filename_demo: "default_filename demo_now = ''recording_20240309_140507.wav''"
  by (simp add: default_filename_def strftime_def demo_now_def zfill_def str_nat.simps
      digit_char_def)

lemma save_recording_demo:
  "save_recording \<lparr>recordings_dir = ''recordings''\<rparr> session_fs demo_now ''/tmp/rec.wav'' None
     = Inr (''recordings/recording_20240309_140507.wav'',
            session_fs @ [(''recordings/recording_20240309_140507.wav'',
                           File [82, 73, 70, 70] 10)])"
  by (simp add: save_recording_def default_filename_demo Let_def path_join_def sep_def
      dirname_def basename_def path_exists_def session_fs_def copy2_def isdir_def
      open_wb_def check_parent_def write_file_def)

text \<open>The statement for 9 March 2024, 14:05:07 and one second later.\<close>

theorem default_filename_timestamp_witness:
  "valid_datetime demo_now \<and>
   default_filename demo_now = ''recording_20240309_140507.wav'' \<and>
   (\<exists>fs'. save_recording \<lparr>recordings_dir = ''recordings''\<rparr> session_fs demo_now
            ''/tmp/rec.wav'' None
          = Inr (path_join ''recordings'' (default_filename demo_now), fs')) \<and>
   valid_datetime (demo_now\<lparr>second := 8\<rparr>) \<and> demo_now \<noteq> demo_now\<lparr>second := 8\<rparr> \<and>
   default_filename demo_now \<noteq> default_filename (demo_now\<lparr>second := 8\<rparr>) \<and>
   path_join ''recordings'' (default_filename demo_now)
     \<noteq> path_join ''recordings'' (default_filename (demo_now\<lparr>second := 8\<rparr>))"
proof -
  let ?fm = "\<lparr>recordings_dir = ''recordings''\<rparr>"
  let ?d2 = "demo_now\<lparr>second := 8\<rparr>"
  let ?fs' = "session_fs @ [(''recordings/recording_20240309_140507.wav'', File [82, 73, 70, 70] 10)]"
  have v1: "valid_datetime demo_now" by (simp add: valid_datetime_def demo_now_def)
  have v2: "valid_datetime ?d2" by (simp add: valid_datetime_def demo_now_def)
  have ne: "demo_now \<noteq> ?d2" by (simp add: demo_now_def)
  note t = default_filename_timestamp[of demo_now None ?fm session_fs "''/tmp/rec.wav''"
      "''recordings/recording_20240309_140507.wav''" ?fs' demo_now ?d2]
  from t save_recording_demo have
    p: "''recordings/recording_20240309_140507.wav''
          = path_join (recordings_dir ?fm) (default_filename demo_now)" by blast
  from t v1 v2 ne have d: "default_filename demo_now \<noteq> default_filename ?d2 \<and>
      path_join (recordings_dir ?fm) (default_filename demo_now)
        \<noteq> path_join (recordings_dir ?fm) (default_filename ?d2)" by blast
  from save_recording_demo p have
    "\<exists>fs'. save_recording ?fm session_fs demo_now ''/tmp/rec.wav'' None
          = Inr (path_join ''recordings'' (default_filename demo_now), fs')" by simp
  with v1 v2 ne d default_filename_demo show ?thesis by simp
qed

section \<open>Deleting a recording: proofs\<close>

text \<open>
  Claim C5. When nothing exists at the path of the file name inside the recordings
  directory, \<open>delete_recording\<close> returns \<open>False\<close> without raising and leaves the file
  system as it was. When the name is that of a regular file there, it returns \<open>True\<close>,
  the file is gone, and every other entry is unchanged.
\<close>

theorem delete_recording_result:
  "(\<not> path_exists fs (path_join (recordings_dir fm) filename) \<longrightarrow>
      delete_recording fm fs filename = Inr (False, fs)) \<and>
   (isfile fs (path_join (recordings_dir fm) filename) \<longrightarrow>
      (\<exists>fs'. delete_recording fm fs filename = Inr (True, fs') \<and>
         \<not> path_exists fs' (path_join (recordings_dir fm) filename) \<and>
         (\<forall>q. q \<noteq> path_join (recordings_dir fm) filename \<longrightarrow> map_of fs' q = map_of fs q) \<and>
         fs' = filter (\<lambda>e. fst e \<noteq> path_join (recordings_dir fm) filename) fs))"
proof (intro conjI impI)
  assume "\<not> path_exists fs (path_join (recordings_dir fm) filename)"
  then show "delete_recording fm fs filename = Inr (False, fs)"
    by (simp add: delete_recording_def Let_def)
next
  let ?p = "path_join (recordings_dir fm) filename"
  assume f: "isfile fs ?p"
  then obtain c m where m: "map_of fs ?p = Some (File c m)"
    by (auto simp: isfile_def split: option.splits node.splits)
  then have ex: "path_exists fs ?p" by (simp add: path_exists_def)
  have rm: "remove fs ?p = Inr (AList.delete ?p fs)" using m by (simp add: remove_def)
  have d: "delete_recording fm fs filename = Inr (True, AList.delete ?p fs)"
    using ex rm by (simp add: delete_recording_def Let_def)
  have 1: "\<not> path_exists (AList.delete ?p fs) ?p" by (simp add: path_exists_def delete_conv')
  have 2: "\<forall>q. q \<noteq> ?p \<longrightarrow> map_of (AList.delete ?p fs) q = map_of fs q"
    by (simp add: delete_conv')
  have 3: "AList.delete ?p fs = filter (\<lambda>e. fst e \<noteq> ?p) fs" by (induction fs) auto
  from d 1 2 3 show "\<exists>fs'. delete_recording fm fs filename = Inr (True, fs') \<and>
         \<not> path_exists fs' ?p \<and> (\<forall>q. q \<noteq> ?p \<longrightarrow> map_of fs' q = map_of fs q) \<and>
         fs' = filter (\<lambda>e. fst e \<noteq> ?p) fs" by simp
qed

text \<open>The statement for a missing name and for an existing recording.\<close>

theorem delete_recording_result_witness:
  "\<not> path_exists demo_fs (path_join (recordings_dir \<lparr>recordings_dir = ''recordings''\<rparr>) ''c.wav'') \<and>
   delete_recording \<lparr>recordings_dir = ''recordings''\<rparr> demo_fs ''c.wav'' = Inr (False, demo_fs) \<and>
   isfile demo_fs (path_join (recordings_dir \<lparr>recordings_dir = ''recordings''\<rparr>) ''a.wav'') \<and>
   delete_recording \<lparr>recordings_dir = ''recordings''\<rparr> demo_fs ''a.wav''
     = Inr (True, [(''recordings'', Dir), (''recordings/notes.txt'', File [3] 9),
                   (''recordings/b.wav'', File [4] 7)])"
proof -
  let ?fm = "\<lparr>recordings_dir = ''recordings''\<rparr>"
  have a: "\<not> path_exists demo_fs (path_join (recordings_dir ?fm) ''c.wav'')"
    by (simp add: demo_fs_def path_exists_def path_join_def sep_def)
  have b: "isfile demo_fs (path_join (recordings_dir ?fm) ''a.wav'')"
    by (simp add: demo_fs_def isfile_def path_join_def sep_def)
  have c: "filter (\<lambda>e. fst e \<noteq> path_join (recordings_dir ?fm) ''a.wav'') demo_fs
     = [(''recordings'', Dir), (''recordings/notes.txt'', File [3] 9),
        (''recordings/b.wav'', File [4] 7)]"
    by (simp add: demo_fs_def path_join_def sep_def)
  from delete_recording_result[of demo_fs ?fm "''c.wav''"]
    delete_recording_result[of demo_fs ?fm "''a.wav''"] a b c
  show ?thesis by auto
qed

section \<open>Saving a recording: proofs\<close>

lemma mkdir_preserves:
  assumes "mkdir fs p = Inr fs1" "map_of fs q = Some n"
  shows "map_of fs1 q = Some n"
proof -
  from assms(1) have ne: "\<not> path_exists fs p" and fs1: "fs1 = AList.update p Dir fs"
    by (auto simp: mkdir_def split: if_splits)
  from ne assms(2) have "q \<noteq> p" by (auto simp: path_exists_def)
  then show ?thesis using assms(2) by (simp add: fs1 update_conv')
qed

lemma makedirs_preserves:
  "makedirs fs name = Inr fs1 \<Longrightarrow> map_of fs q = Some n \<Longrightarrow> map_of fs1 q = Some n"
proof (induction fs name arbitrary: fs1 rule: makedirs.induct)
  case (1 fs name)
  show ?case
  proof (cases "split_head name \<noteq> [] \<and> split_tail name \<noteq> [] \<and> \<not> path_exists fs (split_head name)")
    case False
    with "1.prems"(1) have "mkdir fs name = Inr fs1" by (subst (asm) makedirs.simps) simp
    then show ?thesis using "1.prems"(2) by (rule mkdir_preserves)
  next
    case True
    show ?thesis
    proof (cases "makedirs fs (split_head name)")
      case (Inl e)
      with True "1.prems"(1) have "fs1 = fs \<or> mkdir fs name = Inr fs1"
        by (subst (asm) makedirs.simps) (auto split: if_splits)
      then show ?thesis using "1.prems"(2) mkdir_preserves by blast
    next
      case (Inr fs0)
      from "1.IH"[OF True Inr "1.prems"(2)] have m0: "map_of fs0 q = Some n" .
      from True Inr "1.prems"(1) have "fs1 = fs0 \<or> mkdir fs0 name = Inr fs1"
        by (subst (asm) makedirs.simps) (auto split: if_splits)
      then show ?thesis using m0 mkdir_preserves by blast
    qed
  qed
qed

lemma copy2_file:
  assumes "copy2 fs src dst = Inr fs2" "map_of fs src = Some (File c m)"
  shows "(\<not> isdir fs dst \<and> map_of fs2 dst = Some (File c m)) \<or> (isdir fs dst \<and> isdir fs2 dst)"
proof (cases "isdir fs dst")
  case False
  from assms False obtain fsx where o: "open_wb fs dst m = Inr fsx"
    and f: "fs2 = write_file fsx dst c m"
    by (auto simp: copy2_def Let_def split: if_splits sum.splits)
  have "map_of fs2 dst = Some (File c m)" by (simp add: f write_file_def update_conv')
  with False show ?thesis by simp
next
  case True
  let ?d = "path_join dst (basename src)"
  from assms True obtain fsx where o: "open_wb fs ?d m = Inr fsx"
    and f: "fs2 = write_file fsx ?d c m"
    by (auto simp: copy2_def Let_def split: if_splits sum.splits)
  from True have md: "map_of fs dst = Some Dir" by (simp add: isdir_def)
  have ne: "?d \<noteq> dst"
  proof
    assume "?d = dst"
    with o md show False by (simp add: open_wb_def)
  qed
  from o have fx: "fsx = AList.update ?d (File [] m) fs"
    by (auto simp: open_wb_def split: option.splits node.splits)
  have "map_of fs2 dst = Some Dir" using ne md by (simp add: f fx write_file_def update_conv')
  with True show ?thesis by (simp add: isdir_def)
qed

lemma basename_path_join:
  assumes "n \<noteq> []" "sep \<notin> set n"
  shows "basename (path_join d n) = n"
proof -
  have h: "hd n \<noteq> sep" using assms by (cases n) auto
  have t: "takeWhile (\<lambda>c. c \<noteq> sep) (rev n) = rev n" using assms(2) by (auto simp: takeWhile_eq_all_conv)
  have a: "\<And>a. a = [] \<or> last a = sep \<Longrightarrow> basename (a @ n) = n"
  proof -
    fix a :: string
    assume "a = [] \<or> last a = sep"
    then have "takeWhile (\<lambda>c. c \<noteq> sep) (rev a) = []" by (cases a rule: rev_cases) auto
    moreover have "takeWhile (\<lambda>c. c \<noteq> sep) (rev n @ rev a)
        = rev n @ takeWhile (\<lambda>c. c \<noteq> sep) (rev a)"
      by (rule takeWhile_append2) (use assms(2) in auto)
    ultimately have "takeWhile (\<lambda>c. c \<noteq> sep) (rev n @ rev a) = rev n" by simp
    then show "basename (a @ n) = n" by (simp add: basename_def)
  qed
  show ?thesis
  proof (cases "d = [] \<or> last d = sep")
    case True
    then show ?thesis using h assms(1) a[of d] by (simp add: path_join_def)
  next
    case False
    have "basename ((d @ [sep]) @ n) = n" by (rule a) simp
    then show ?thesis using False h assms(1) by (simp add: path_join_def)
  qed
qed

lemma default_filename_no_sep: "default_filename now \<noteq> [] \<and> sep \<notin> set (default_filename now)"
proof -
  have "\<And>w n. sep \<notin> set (zfill w (str_nat n))"
    using zfill_digits is_digit_not_sep by blast
  then show ?thesis by (simp add: default_filename_def strftime_def sep_def)
qed


lemma dirname_basename_length: "length (dirname p) + length (basename p) \<le> length p"
proof -
  let ?h = "rev (dropWhile (\<lambda>c. c \<noteq> sep) (rev p))"
  have "length (rev (dropWhile (\<lambda>c. c = sep) (rev ?h))) \<le> length ?h"
    by (simp add: length_dropWhile_le)
  then have 1: "length (dirname p) \<le> length ?h" by (simp add: dirname_def Let_def)
  have "length (takeWhile (\<lambda>c. c \<noteq> sep) (rev p)) + length (dropWhile (\<lambda>c. c \<noteq> sep) (rev p))
      = length (rev p)"
    by (simp only: length_append[symmetric] takeWhile_dropWhile_id)
  then have "length ?h + length (basename p) = length p" by (simp add: basename_def)
  with 1 show ?thesis by linarith
qed

lemma split_head_shorter: "split_tail name \<noteq> [] \<Longrightarrow> length (split_head name) < length name"
proof (cases "basename name = []")
  case True
  assume "split_tail name \<noteq> []"
  with True have "0 < length (basename (dirname name))" by (simp add: split_tail_def)
  with dirname_basename_length[of "dirname name"]
  have "length (dirname (dirname name)) < length (dirname name)" by linarith
  moreover have "length (dirname name) \<le> length name"
    using dirname_basename_length[of name] by linarith
  ultimately show ?thesis using True by (simp add: split_head_def)
next
  case False
  then have "0 < length (basename name)" by simp
  with dirname_basename_length[of name] have "length (dirname name) < length name" by linarith
  then show ?thesis using False by (simp add: split_head_def)
qed

lemma mkdir_creates:
  assumes "mkdir fs p = Inr fs1" "map_of fs1 q \<noteq> map_of fs q"
  shows "q = p"
proof -
  from assms(1) have fs1: "fs1 = AList.update p Dir fs"
    by (auto simp: mkdir_def split: if_splits)
  show ?thesis
  proof (rule ccontr)
    assume "q \<noteq> p"
    then have "map_of fs1 q = map_of fs q" by (simp add: fs1 update_conv')
    with assms(2) show False by simp
  qed
qed

lemma makedirs_creates:
  "makedirs fs name = Inr fs1 \<Longrightarrow> map_of fs1 q \<noteq> map_of fs q \<Longrightarrow> length q \<le> length name"
proof (induction fs name arbitrary: fs1 rule: makedirs.induct)
  case (1 fs name)
  show ?case
  proof (cases "split_head name \<noteq> [] \<and> split_tail name \<noteq> [] \<and> \<not> path_exists fs (split_head name)")
    case False
    with "1.prems"(1) have "mkdir fs name = Inr fs1" by (subst (asm) makedirs.simps) simp
    from mkdir_creates[OF this "1.prems"(2)] show ?thesis by simp
  next
    case True
    then have sh: "length (split_head name) < length name" by (simp add: split_head_shorter)
    show ?thesis
    proof (cases "makedirs fs (split_head name)")
      case (Inl e)
      with True "1.prems"(1) have "fs1 = fs \<or> mkdir fs name = Inr fs1"
        by (subst (asm) makedirs.simps) (auto split: if_splits)
      then show ?thesis using "1.prems"(2) mkdir_creates by fastforce
    next
      case (Inr fs0)
      from True Inr "1.prems"(1) have c: "fs1 = fs0 \<or> mkdir fs0 name = Inr fs1"
        by (subst (asm) makedirs.simps) (auto split: if_splits)
      show ?thesis
      proof (cases "map_of fs0 q = map_of fs q")
        case True
        with "1.prems"(2) have "map_of fs1 q \<noteq> map_of fs0 q" by simp
        with c mkdir_creates have "q = name" by blast
        then show ?thesis by simp
      next
        case False
        then have "map_of fs0 q \<noteq> map_of fs q" .
        from "1.IH"[OF True Inr this] sh show ?thesis by linarith
      qed
    qed
  qed
qed

lemma save_recording_copy_target:
  assumes "save_recording fm fs now src dest = Inr (p, fs')" "\<not> isdir fs p" "basename p \<noteq> []"
  shows "\<exists>fs1. copy2 fs1 src p = Inr fs' \<and> \<not> isdir fs1 p \<and>
           (\<forall>q n. map_of fs q = Some n \<longrightarrow> map_of fs1 q = Some n)"
proof -
  let ?g = "path_join (recordings_dir fm) (default_filename now)"
  let ?D = "case dest of None \<Rightarrow> ?g | Some d \<Rightarrow> (if d = [] then ?g else d)"
  let ?mk = "if dirname ?D \<noteq> [] \<and> \<not> path_exists fs (dirname ?D) then makedirs fs (dirname ?D)
             else Inr fs"
  from assms(1) obtain fs1 where mk: "?mk = Inr fs1" and cp: "copy2 fs1 src ?D = Inr fs'"
    and p: "p = ?D"
    unfolding save_recording_def Let_def by (auto split: sum.splits)
  show ?thesis
  proof (cases "dirname ?D \<noteq> [] \<and> \<not> path_exists fs (dirname ?D)")
    case True
    with mk have m: "makedirs fs (dirname p) = Inr fs1" by (simp add: p)
    have "length (dirname p) < length p"
      using dirname_basename_length[of p] assms(3) by (cases "basename p") auto
    with makedirs_creates[OF m, of p] have "map_of fs1 p = map_of fs p" by force
    with assms(2) have "\<not> isdir fs1 p" by (simp add: isdir_def)
    with cp p makedirs_preserves[OF m] show ?thesis by blast
  next
    case False
    with mk have "fs1 = fs" by simp
    with cp p assms(2) show ?thesis by blast
  qed
qed

text \<open>
  Claim C2. The source is an existing regular file, \<open>save_recording\<close> returns the path
  \<open>p\<close>, and \<open>p\<close> is a file name: it does not end in a separator and does not name an
  existing directory. Then reading \<open>p\<close> afterwards gives the bytes of the source; when
  the name was generated, or when \<open>p\<close> is the recordings directory joined with a plain
  name, \<open>get_recording_path\<close> of the base name of \<open>p\<close> is \<open>p\<close> again and reads the
  same bytes.
\<close>

theorem save_recording_roundtrip:
  assumes "map_of fs source_file = Some (File c m)"
    and "save_recording fm fs now source_file dest = Inr (p, fs')"
    and "\<not> isdir fs p" "basename p \<noteq> []"
  shows "read_file fs source_file = Inr c \<and> read_file fs' p = Inr c \<and>
     ((dest = None \<or> dest = Some []) \<longrightarrow>
        read_file fs' (get_recording_path fm (basename p)) = Inr c) \<and>
     (\<forall>n. n \<noteq> [] \<and> sep \<notin> set n \<and> p = path_join (recordings_dir fm) n \<longrightarrow>
        read_file fs' (get_recording_path fm (basename p)) = Inr c)"
proof -
  from save_recording_copy_target[OF assms(2,3,4)] assms(1) obtain fs1 where
    cp: "copy2 fs1 source_file p = Inr fs'" and nd: "\<not> isdir fs1 p"
    and s1: "map_of fs1 source_file = Some (File c m)"
    by blast
  from copy2_file[OF cp s1] nd have "map_of fs' p = Some (File c m)" by blast
  then have r: "read_file fs' p = Inr c" by (simp add: read_file_def)
  have r0: "read_file fs source_file = Inr c" using assms(1) by (simp add: read_file_def)
  have g: "\<And>n. n \<noteq> [] \<Longrightarrow> sep \<notin> set n \<Longrightarrow> p = path_join (recordings_dir fm) n \<Longrightarrow>
      get_recording_path fm (basename p) = p"
    by (simp add: get_recording_path_def basename_path_join)
  have 1: "(dest = None \<or> dest = Some []) \<longrightarrow>
      read_file fs' (get_recording_path fm (basename p)) = Inr c"
  proof
    assume "dest = None \<or> dest = Some []"
    from save_recording_generated[OF this assms(2)]
    have "p = path_join (recordings_dir fm) (default_filename now)" .
    with g[of "default_filename now"] default_filename_no_sep[of now] r
    show "read_file fs' (get_recording_path fm (basename p)) = Inr c" by simp
  qed
  have 2: "\<forall>n. n \<noteq> [] \<and> sep \<notin> set n \<and> p = path_join (recordings_dir fm) n \<longrightarrow>
        read_file fs' (get_recording_path fm (basename p)) = Inr c"
    using g r by metis
  from r0 r 1 2 show ?thesis by blast
qed

lemma save_recording_named_demo:
  "save_recording \<lparr>recordings_dir = ''recordings''\<rparr> session_fs demo_now ''/tmp/rec.wav''
       (Some ''exports/take1.wav'')
     = Inr (''exports/take1.wav'',
            session_fs @ [(''exports'', Dir), (''exports/take1.wav'', File [82, 73, 70, 70] 10)])"
  by (simp add: save_recording_def Let_def sep_def dirname_def basename_def path_exists_def
      session_fs_def copy2_def isdir_def open_wb_def check_parent_def write_file_def
      makedirs.simps mkdir_def split_head_def split_tail_def isfile_def)

text \<open>The statement for the temporary file of a session, saved under a generated
  name, under a name in a directory that does not exist yet, and under a plain name in
  the recordings directory.\<close>

lemma save_recording_plain_demo:
  "save_recording \<lparr>recordings_dir = ''recordings''\<rparr> session_fs demo_now ''/tmp/rec.wav''
       (Some ''recordings/take2.wav'')
     = Inr (path_join ''recordings'' ''take2.wav'',
            session_fs @ [(''recordings/take2.wav'', File [82, 73, 70, 70] 10)])"
  by (simp add: save_recording_def Let_def sep_def dirname_def basename_def path_exists_def
      session_fs_def copy2_def isdir_def open_wb_def check_parent_def write_file_def
      path_join_def)

theorem save_recording_roundtrip_witness:
  "map_of session_fs ''/tmp/rec.wav'' = Some (File [82, 73, 70, 70] 10) \<and>
   save_recording \<lparr>recordings_dir = ''recordings''\<rparr> session_fs demo_now ''/tmp/rec.wav'' None
     = Inr (''recordings/recording_20240309_140507.wav'',
            session_fs @ [(''recordings/recording_20240309_140507.wav'',
                           File [82, 73, 70, 70] 10)]) \<and>
   \<not> isdir session_fs ''recordings/recording_20240309_140507.wav'' \<and>
   basename ''recordings/recording_20240309_140507.wav'' \<noteq> [] \<and>
   read_file (session_fs @ [(''recordings/recording_20240309_140507.wav'',
                             File [82, 73, 70, 70] 10)])
        ''recordings/recording_20240309_140507.wav'' = Inr [82, 73, 70, 70] \<and>
   read_file (session_fs @ [(''recordings/recording_20240309_140507.wav'',
                             File [82, 73, 70, 70] 10)])
        (get_recording_path \<lparr>recordings_dir = ''recordings''\<rparr>
           (basename ''recordings/recording_20240309_140507.wav'')) = Inr [82, 73, 70, 70] \<and>
   save_recording \<lparr>recordings_dir = ''recordings''\<rparr> session_fs demo_now ''/tmp/rec.wav''
       (Some ''exports/take1.wav'')
     = Inr (''exports/take1.wav'',
            session_fs @ [(''exports'', Dir), (''exports/take1.wav'', File [82, 73, 70, 70] 10)]) \<and>
   read_file (session_fs @ [(''exports'', Dir), (''exports/take1.wav'', File [82, 73, 70, 70] 10)])
        ''exports/take1.wav'' = Inr [82, 73, 70, 70] \<and>
   ''take2.wav'' \<noteq> [] \<and> sep \<notin> set ''take2.wav'' \<and>
   save_recording \<lparr>recordings_dir = ''recordings''\<rparr> session_fs demo_now ''/tmp/rec.wav''
       (Some ''recordings/take2.wav'')
     = Inr (path_join ''recordings'' ''take2.wav'',
            session_fs @ [(''recordings/take2.wav'', File [82, 73, 70, 70] 10)]) \<and>
   read_file (session_fs @ [(''recordings/take2.wav'', File [82, 73, 70, 70] 10)])
        (get_recording_path \<lparr>recordings_dir = ''recordings''\<rparr>
           (basename (path_join ''recordings'' ''take2.wav''))) = Inr [82, 73, 70, 70]"
proof -
  let ?fm = "\<lparr>recordings_dir = ''recordings''\<rparr>"
  let ?p = "''recordings/recording_20240309_140507.wav''"
  let ?fs' = "session_fs @ [(?p, File [82, 73, 70, 70] 10)]"
  let ?q = "''exports/take1.wav''"
  let ?fs2 = "session_fs @ [(''exports'', Dir), (?q, File [82, 73, 70, 70] 10)]"
  have s: "map_of session_fs ''/tmp/rec.wav'' = Some (File [82, 73, 70, 70] 10)"
    by (simp add: session_fs_def)
  have nd: "\<not> isdir session_fs ?p" by (simp add: isdir_def session_fs_def)
  have nd2: "\<not> isdir session_fs ?q" by (simp add: isdir_def session_fs_def)
  have b: "basename ?p \<noteq> []" by (simp add: basename_def sep_def)
  have b2: "basename ?q \<noteq> []" by (simp add: basename_def sep_def)
  from save_recording_roundtrip[OF s save_recording_demo nd b]
  have 1: "read_file ?fs' ?p = Inr [82, 73, 70, 70]"
    and 2: "read_file ?fs' (get_recording_path ?fm (basename ?p)) = Inr [82, 73, 70, 70]"
    by simp_all
  from save_recording_roundtrip[OF s save_recording_named_demo nd2 b2]
  have 3: "read_file ?fs2 ?q = Inr [82, 73, 70, 70]" by simp
  let ?t = "path_join ''recordings'' ''take2.wav''"
  let ?fs3 = "session_fs @ [(''recordings/take2.wav'', File [82, 73, 70, 70] 10)]"
  have nd3: "\<not> isdir session_fs ?t" by (simp add: isdir_def session_fs_def path_join_def sep_def)
  have b3: "basename ?t \<noteq> []" by (simp add: basename_def path_join_def sep_def)
  have n3: "''take2.wav'' \<noteq> [] \<and> sep \<notin> set ''take2.wav''" by (simp add: sep_def)
  from save_recording_roundtrip[OF s save_recording_plain_demo nd3 b3] n3
  have 4: "read_file ?fs3 (get_recording_path ?fm (basename ?t)) = Inr [82, 73, 70, 70]"
    by simp
  from s save_recording_demo nd b 1 2 save_recording_named_demo 3 n3 save_recording_plain_demo 4
  show ?thesis by blast
qed

text \<open>For comparison, a destination that is an existing directory: \<open>copy2\<close> puts the
  copy inside it, and the path returned is the directory.\<close>

lemma save_recording_into_directory:
  "save_recording \<lparr>recordings_dir = ''recordings''\<rparr> session_fs demo_now ''/tmp/rec.wav''
       (Some ''recordings'')
     = Inr (''recordings'', session_fs @ [(''recordings/rec.wav'', File [82, 73, 70, 70] 10)])"
  by (simp add: save_recording_def Let_def sep_def dirname_def basename_def path_exists_def
      session_fs_def copy2_def isdir_def open_wb_def check_parent_def write_file_def
      path_join_def)

section \<open>The waveform display: proofs\<close>

lemma rect_height_bar_rect: "rect_height (bar_rect w sx i h) = h"
  by (simp add: rect_height_def bar_rect_def Let_def)

lemma draw_bars_flat:
  "\<not> animation_running w \<Longrightarrow>
   draw_bars fmul w rnd sx js hs rs = Inr (hs, rs @ map (\<lambda>i. bar_rect w sx i 2) js)"
  by (induction js arbitrary: rs) simp_all

lemma max_diff_ge5: "5 \<le> max_diff fmul w"
  by (simp add: max_diff_def)

lemma max_diff_le_real: "real_of_int (max_diff fmul w) \<le> max 5 (fmul (amplitude w) 20)"
proof (cases "0 \<le> fmul (amplitude w) 20")
  case True
  then have "real_of_int (py_int (fmul (amplitude w) 20)) \<le> fmul (amplitude w) 20"
    by (simp add: py_int_def)
  then show ?thesis by (simp add: max_diff_def max_def)
next
  case False
  then have "py_int (fmul (amplitude w) 20) \<le> 0"
    by (simp add: py_int_def ceiling_le_iff)
  then show ?thesis by (simp add: max_diff_def max_def)
qed

lemma randint_range: "a \<le> b \<Longrightarrow> a \<le> randint a b r \<and> randint a b r \<le> b"
proof -
  assume "a \<le> b"
  then have p: "0 < b - a + 1" by simp
  have "0 \<le> r mod (b - a + 1)" using p by (rule pos_mod_sign)
  moreover have "r mod (b - a + 1) < b - a + 1" using p by (rule pos_mod_bound)
  ultimately show ?thesis by (simp add: randint_def)
qed

lemma random_factor_abs:
  "\<bar>randint (- max_diff fmul w) (max_diff fmul w) r\<bar> \<le> max_diff fmul w"
  using randint_range[of "- max_diff fmul w" "max_diff fmul w" r] max_diff_ge5[of fmul w]
  by linarith

lemma clamp_step:
  fixes prev d cap md :: int
  assumes "2 \<le> prev" "prev \<le> max 2 cap" "\<bar>d\<bar> \<le> md"
  shows "2 \<le> max 2 (min cap (prev + d)) \<and> max 2 (min cap (prev + d)) \<le> max 2 cap \<and>
         \<bar>max 2 (min cap (prev + d)) - prev\<bar> \<le> md"
  using assms by (auto simp: max_def min_def)

lemma clamp_first:
  fixes cap x :: int
  shows "2 \<le> max 2 (min cap x) \<and> max 2 (min cap x) \<le> max 2 cap"
  by (auto simp: max_def min_def)

lemma animated_height_ok:
  assumes "bars_ok fmul rnd w k hs rs" "k < length hs"
  shows "\<exists>h. animated_height fmul w hs k r = Inr h \<and> 2 \<le> h \<and> h \<le> max 2 (height_cap w) \<and>
           (0 < k \<longrightarrow> \<bar>h - hs ! (k - 1)\<bar> \<le> max_diff fmul w \<and>
              h = max 2 (min (height_cap w)
                    (hs ! (k - 1) + randint (- max_diff fmul w) (max_diff fmul w) r))) \<and>
           (k = 0 \<longrightarrow>
              h = max 2 (min (height_cap w)
                    (py_int (fmul (fmul (amplitude w) (real_of_int (height w))) double_0_8))))"
proof (cases "0 < k")
  case True
  then have k1: "k - 1 < k" by simp
  from assms(1) k1 have p: "2 \<le> hs ! (k - 1) \<and> hs ! (k - 1) \<le> max 2 (height_cap w)"
    unfolding bars_ok_def by blast
  have i: "k - 1 < length hs" using assms(2) by simp
  show ?thesis
    using True i p clamp_step[of "hs ! (k - 1)" "height_cap w"
        "randint (- max_diff fmul w) (max_diff fmul w) r" "max_diff fmul w"]
      random_factor_abs[of fmul w r]
    by (simp add: animated_height_def Let_def)
next
  case False
  then show ?thesis
    using clamp_first[of "height_cap w"
        "py_int (fmul (fmul (amplitude w) (real_of_int (height w))) double_0_8)"]
    by (simp add: animated_height_def Let_def)
qed

lemma bars_ok_step:
  assumes ok: "bars_ok fmul rnd w k hs rs" and k: "k < length hs"
    and h: "2 \<le> h" "h \<le> max 2 (height_cap w)"
      "0 < k \<longrightarrow> \<bar>h - hs ! (k - 1)\<bar> \<le> max_diff fmul w \<and>
         h = max 2 (min (height_cap w)
               (hs ! (k - 1) + randint (- max_diff fmul w) (max_diff fmul w) (rnd k)))"
      "k = 0 \<longrightarrow>
         h = max 2 (min (height_cap w)
               (py_int (fmul (fmul (amplitude w) (real_of_int (height w))) double_0_8)))"
  shows "bars_ok fmul rnd w (Suc k) (hs[k := h]) (rs @ [bar_rect w sx k h])"
proof -
  let ?first = "max 2 (min (height_cap w)
      (py_int (fmul (fmul (amplitude w) (real_of_int (height w))) double_0_8)))"
  let ?next = "\<lambda>g i. max 2 (min (height_cap w)
      (g ! i + randint (- max_diff fmul w) (max_diff fmul w) (rnd (Suc i))))"
  from ok have lr: "length rs = k" and
    a: "\<forall>i<k. rect_height (rs ! i) = hs ! i" and
    b: "\<forall>i<k. 2 \<le> hs ! i \<and> hs ! i \<le> max 2 (height_cap w)" and
    c: "\<forall>i. Suc i < k \<longrightarrow> \<bar>hs ! Suc i - hs ! i\<bar> \<le> max_diff fmul w" and
    d: "0 < k \<longrightarrow> hs ! 0 = ?first" and
    e: "\<forall>i. Suc i < k \<longrightarrow> hs ! Suc i = ?next hs i"
    unfolding bars_ok_def by blast+
  have 1: "length (rs @ [bar_rect w sx k h]) = Suc k" using lr by simp
  have 2: "Suc k \<le> length (hs[k := h])" using k by simp
  have 3: "\<forall>i<Suc k. rect_height ((rs @ [bar_rect w sx k h]) ! i) = hs[k := h] ! i"
  proof (intro allI impI)
    fix i assume "i < Suc k"
    then consider "i < k" | "i = k" by linarith
    then show "rect_height ((rs @ [bar_rect w sx k h]) ! i) = hs[k := h] ! i"
    proof cases
      case 1
      then show ?thesis using a lr by (simp add: nth_append)
    next
      case 2
      then show ?thesis using lr k by (simp add: nth_append rect_height_bar_rect)
    qed
  qed
  have 4: "\<forall>i<Suc k. 2 \<le> hs[k := h] ! i \<and> hs[k := h] ! i \<le> max 2 (height_cap w)"
  proof (intro allI impI)
    fix i assume "i < Suc k"
    then consider "i < k" | "i = k" by linarith
    then show "2 \<le> hs[k := h] ! i \<and> hs[k := h] ! i \<le> max 2 (height_cap w)"
    proof cases
      case 1
      then show ?thesis using b by simp
    next
      case 2
      then show ?thesis using h(1,2) k by simp
    qed
  qed
  have 5: "\<forall>i. Suc i < Suc k \<longrightarrow> \<bar>hs[k := h] ! Suc i - hs[k := h] ! i\<bar> \<le> max_diff fmul w"
  proof (intro allI impI)
    fix i assume "Suc i < Suc k"
    then consider "Suc i < k" | "Suc i = k" by linarith
    then show "\<bar>hs[k := h] ! Suc i - hs[k := h] ! i\<bar> \<le> max_diff fmul w"
    proof cases
      case 1
      then show ?thesis using c by simp
    next
      case 2
      then have "0 < k" and "k - 1 = i" by simp_all
      then show ?thesis using h(3) k 2 by auto
    qed
  qed
  have 6: "0 < Suc k \<longrightarrow> hs[k := h] ! 0 = ?first"
  proof (cases "k = 0")
    case True
    then show ?thesis using h(4) k by simp
  next
    case False
    then show ?thesis using d by simp
  qed
  have 7: "\<forall>i. Suc i < Suc k \<longrightarrow> hs[k := h] ! Suc i = ?next (hs[k := h]) i"
  proof (intro allI impI)
    fix i assume "Suc i < Suc k"
    then consider "Suc i < k" | "Suc i = k" by linarith
    then show "hs[k := h] ! Suc i = ?next (hs[k := h]) i"
    proof cases
      case 1
      then show ?thesis using e by simp
    next
      case 2
      then have "0 < k" and "k - 1 = i" by simp_all
      then show ?thesis using h(3) k 2 by auto
    qed
  qed
  show ?thesis unfolding bars_ok_def using 1 2 3 4 5 6 7 by blast
qed

lemma draw_bars_animated:
  assumes "animation_running w"
  shows "n \<le> length hs \<Longrightarrow> k \<le> n \<Longrightarrow> bars_ok fmul rnd w k hs rs \<Longrightarrow>
     \<exists>hs' rs'. draw_bars fmul w rnd sx [k ..< n] hs rs = Inr (hs', rs') \<and>
       bars_ok fmul rnd w n hs' rs'"
proof (induction "n - k" arbitrary: k hs rs)
  case 0
  then have "k = n" by simp
  then show ?case using 0 by simp
next
  case (Suc d)
  then have kn: "k < n" by simp
  then have kl: "k < length hs" using Suc.prems(1) by simp
  from animated_height_ok[OF Suc.prems(3) kl, of "rnd k"] obtain h where
    ah: "animated_height fmul w hs k (rnd k) = Inr h" and
    hb: "2 \<le> h" "h \<le> max 2 (height_cap w)"
      "0 < k \<longrightarrow> \<bar>h - hs ! (k - 1)\<bar> \<le> max_diff fmul w \<and>
         h = max 2 (min (height_cap w)
               (hs ! (k - 1) + randint (- max_diff fmul w) (max_diff fmul w) (rnd k)))"
      "k = 0 \<longrightarrow>
         h = max 2 (min (height_cap w)
               (py_int (fmul (fmul (amplitude w) (real_of_int (height w))) double_0_8)))"
    by blast
  have ok': "bars_ok fmul rnd w (Suc k) (hs[k := h]) (rs @ [bar_rect w sx k h])"
    using bars_ok_step[OF Suc.prems(3) kl hb] .
  have d: "d = n - Suc k" using Suc.hyps(2) by simp
  have "\<exists>hs' rs'. draw_bars fmul w rnd sx [Suc k ..< n] (hs[k := h]) (rs @ [bar_rect w sx k h])
          = Inr (hs', rs') \<and> bars_ok fmul rnd w n hs' rs'"
    using Suc.hyps(1)[OF d _ _ ok'] Suc.prems(1) kn by simp
  moreover have "draw_bars fmul w rnd sx [k ..< n] hs rs =
      draw_bars fmul w rnd sx [Suc k ..< n] (hs[k := h]) (rs @ [bar_rect w sx k h])"
    using kn kl ah assms by (simp add: upt_conv_Cons)
  ultimately show ?case by simp
qed

lemma bars_ok_empty: "bars_ok fmul rnd w 0 hs []"
  by (simp add: bars_ok_def)

lemma height_cap_bound: "3 \<le> height w \<Longrightarrow>
  2 \<le> height_cap w \<and> real_of_int (height_cap w) \<le> 0.8 * real_of_int (height w)"
proof -
  assume h: "3 \<le> height w"
  then have "3 \<le> real_of_int (height w)" by linarith
  then have g: "2 \<le> real_of_int (height w) * 0.8" by simp
  then have "2 \<le> \<lfloor>real_of_int (height w) * 0.8\<rfloor>" by (simp add: le_floor_iff)
  moreover have "real_of_int \<lfloor>real_of_int (height w) * 0.8\<rfloor> \<le> real_of_int (height w) * 0.8"
    by (rule of_int_floor_le)
  ultimately show ?thesis using g by (simp add: height_cap_def py_int_def)
qed

text \<open>
  Claim C8, as amended. \<open>draw_waveform\<close> returns normally from every state whose
  \<open>heights\<close> list covers the bars (as \<open>start_animation\<close> leaves it) and draws as many
  bars as fit, at most \<open>bars\<close>. While animating, the first bar has the clamped amplitude
  height, and every later bar's height is the previous bar's height plus the random
  factor of \<open>[-max_diff, max_diff]\<close>, clamped; so it differs from the previous one by at
  most \<open>max_diff\<close>, which is \<open>max(5, int(amplitude * 20))\<close> and at most
  \<open>max(5, amplitude * 20)\<close>, the product being the rounded one. Every drawn bar has a
  height of at least 2 and at most the larger of 2 and \<open>int(height * 0.8)\<close>, which is at
  most 80 percent of the canvas height as soon as the canvas is 3 or more high. When not
  animating, every bar is drawn with height 2.
\<close>

theorem draw_waveform_bar_heights:
  assumes "animation_running w \<longrightarrow> nat (bars w) \<le> length (heights w)"
  shows "\<exists>w' rs. draw_waveform fmul w rnd = Inr (w', rs) \<and>
      length rs = nat (min (bars w) ((width w - 20) div (bar_width w + bar_gap w))) \<and>
      (animation_running w \<longrightarrow>
         (rs \<noteq> [] \<longrightarrow>
            rect_height (rs ! 0) =
              max 2 (min (height_cap w)
                (py_int (fmul (fmul (amplitude w) (real_of_int (height w))) double_0_8)))) \<and>
         (\<forall>i. Suc i < length rs \<longrightarrow>
            rect_height (rs ! Suc i) =
              max 2 (min (height_cap w)
                (rect_height (rs ! i)
                   + randint (- max_diff fmul w) (max_diff fmul w) (rnd (Suc i)))) \<and>
            \<bar>randint (- max_diff fmul w) (max_diff fmul w) (rnd (Suc i))\<bar> \<le> max_diff fmul w) \<and>
         (\<forall>r \<in> set rs. 2 \<le> rect_height r \<and> rect_height r \<le> max 2 (height_cap w)) \<and>
         (3 \<le> height w \<longrightarrow>
            (\<forall>r \<in> set rs. real_of_int (rect_height r) \<le> 0.8 * real_of_int (height w))) \<and>
         (\<forall>i. Suc i < length rs \<longrightarrow>
            \<bar>rect_height (rs ! Suc i) - rect_height (rs ! i)\<bar> \<le> max_diff fmul w) \<and>
         max_diff fmul w = max 5 (py_int (fmul (amplitude w) 20)) \<and>
         real_of_int (max_diff fmul w) \<le> max 5 (fmul (amplitude w) 20)) \<and>
      (\<not> animation_running w \<longrightarrow> (\<forall>r \<in> set rs. rect_height r = 2))"
proof (cases "animation_running w")
  case False
  define n where "n = nat (min (bars w) ((width w - 20) div (bar_width w + bar_gap w)))"
  define sx where "sx = (width w - (min (bars w) ((width w - 20) div (bar_width w + bar_gap w))
      * (bar_width w + bar_gap w))) div 2"
  have "draw_waveform fmul w rnd =
      Inr (w\<lparr>heights := heights w\<rparr>, map (\<lambda>i. bar_rect w sx i 2) [0 ..< n])"
    using False by (simp add: draw_waveform_def Let_def draw_bars_flat n_def sx_def)
  moreover have "\<forall>r \<in> set (map (\<lambda>i. bar_rect w sx i 2) [0 ..< n]). rect_height r = 2"
    by (simp add: rect_height_bar_rect)
  moreover have "length (map (\<lambda>i. bar_rect w sx i 2) [0 ..< n]) = n" by simp
  ultimately show ?thesis using False unfolding n_def by blast
next
  case True
  define n where "n = nat (min (bars w) ((width w - 20) div (bar_width w + bar_gap w)))"
  define sx where "sx = (width w - (min (bars w) ((width w - 20) div (bar_width w + bar_gap w))
      * (bar_width w + bar_gap w))) div 2"
  let ?first = "max 2 (min (height_cap w)
      (py_int (fmul (fmul (amplitude w) (real_of_int (height w))) double_0_8)))"
  have nl: "n \<le> length (heights w)" using assms True unfolding n_def by linarith
  from draw_bars_animated[where k=0 and rnd=rnd and sx=sx and fmul=fmul, OF True nl _ bars_ok_empty]
  obtain hs' rs' where
    d: "draw_bars fmul w rnd sx [0 ..< n] (heights w) [] = Inr (hs', rs')"
    and ok: "bars_ok fmul rnd w n hs' rs'"
    by auto
  have dw: "draw_waveform fmul w rnd = Inr (w\<lparr>heights := hs'\<rparr>, rs')"
    using d by (simp add: draw_waveform_def Let_def n_def sx_def)
  from ok have lr: "length rs' = n" and
    a: "\<forall>i<n. rect_height (rs' ! i) = hs' ! i" and
    b: "\<forall>i<n. 2 \<le> hs' ! i \<and> hs' ! i \<le> max 2 (height_cap w)" and
    c: "\<forall>i. Suc i < n \<longrightarrow> \<bar>hs' ! Suc i - hs' ! i\<bar> \<le> max_diff fmul w" and
    f: "0 < n \<longrightarrow> hs' ! 0 = ?first" and
    e: "\<forall>i. Suc i < n \<longrightarrow> hs' ! Suc i = max 2 (min (height_cap w)
          (hs' ! i + randint (- max_diff fmul w) (max_diff fmul w) (rnd (Suc i))))"
    unfolding bars_ok_def by blast+
  have 0: "rs' \<noteq> [] \<longrightarrow> rect_height (rs' ! 0) = ?first"
  proof
    assume "rs' \<noteq> []"
    then have "0 < n" using lr by auto
    then show "rect_height (rs' ! 0) = ?first" using a f by simp
  qed
  have 1: "\<forall>r \<in> set rs'. 2 \<le> rect_height r \<and> rect_height r \<le> max 2 (height_cap w)"
  proof
    fix r assume "r \<in> set rs'"
    then obtain i where "i < n" "r = rs' ! i" using lr by (auto simp: in_set_conv_nth)
    then show "2 \<le> rect_height r \<and> rect_height r \<le> max 2 (height_cap w)" using a b by simp
  qed
  have 2: "3 \<le> height w \<longrightarrow>
      (\<forall>r \<in> set rs'. real_of_int (rect_height r) \<le> 0.8 * real_of_int (height w))"
  proof (intro impI ballI)
    fix r assume h: "3 \<le> height w" and r: "r \<in> set rs'"
    from height_cap_bound[OF h] have cap: "2 \<le> height_cap w"
      and capr: "real_of_int (height_cap w) \<le> 0.8 * real_of_int (height w)" by simp_all
    from 1 r cap have "rect_height r \<le> height_cap w" by (auto simp: max_def)
    then have "real_of_int (rect_height r) \<le> real_of_int (height_cap w)" by simp
    with capr show "real_of_int (rect_height r) \<le> 0.8 * real_of_int (height w)" by linarith
  qed
  have 3: "\<forall>i. Suc i < length rs' \<longrightarrow>
      \<bar>rect_height (rs' ! Suc i) - rect_height (rs' ! i)\<bar> \<le> max_diff fmul w"
  proof (intro allI impI)
    fix i assume i: "Suc i < length rs'"
    then have "Suc i < n" "i < n" using lr by simp_all
    then show "\<bar>rect_height (rs' ! Suc i) - rect_height (rs' ! i)\<bar> \<le> max_diff fmul w"
      using a c by simp
  qed
  have 4: "\<forall>i. Suc i < length rs' \<longrightarrow>
      rect_height (rs' ! Suc i) =
        max 2 (min (height_cap w)
          (rect_height (rs' ! i)
             + randint (- max_diff fmul w) (max_diff fmul w) (rnd (Suc i)))) \<and>
      \<bar>randint (- max_diff fmul w) (max_diff fmul w) (rnd (Suc i))\<bar> \<le> max_diff fmul w"
  proof (intro allI impI)
    fix i assume i: "Suc i < length rs'"
    then have "Suc i < n" "i < n" using lr by simp_all
    then show "rect_height (rs' ! Suc i) =
        max 2 (min (height_cap w)
          (rect_height (rs' ! i)
             + randint (- max_diff fmul w) (max_diff fmul w) (rnd (Suc i)))) \<and>
      \<bar>randint (- max_diff fmul w) (max_diff fmul w) (rnd (Suc i))\<bar> \<le> max_diff fmul w"
      using a e random_factor_abs[of fmul w "rnd (Suc i)"] by simp
  qed
  have 5: "max_diff fmul w = max 5 (py_int (fmul (amplitude w) 20))" by (simp add: max_diff_def)
  show ?thesis
    using dw lr 0 1 2 3 4 5 max_diff_le_real[of fmul w] True unfolding n_def by blast
qed

text \<open>The statement for the 800 by 150 canvas, right after \<open>start_animation\<close> and
  before it, with exact products.\<close>

theorem draw_waveform_bar_heights_witness:
  "animation_running (start_animation (init_display 800 150)) \<and>
   nat (bars (start_animation (init_display 800 150)))
     \<le> length (heights (start_animation (init_display 800 150))) \<and>
   3 \<le> height (start_animation (init_display 800 150)) \<and>
   (\<exists>w' rs. draw_waveform (\<lambda>x y. x * y) (start_animation (init_display 800 150))
               (\<lambda>i. int i * 7) = Inr (w', rs) \<and>
      length rs = 60 \<and> rs \<noteq> [] \<and> rect_height (rs ! 0) = 2 \<and>
      (\<forall>r \<in> set rs. 2 \<le> rect_height r \<and>
         real_of_int (rect_height r) \<le> 0.8 * real_of_int (height (start_animation (init_display 800 150)))) \<and>
      (\<forall>i. Suc i < length rs \<longrightarrow> \<bar>rect_height (rs ! Suc i) - rect_height (rs ! i)\<bar> \<le> 5)) \<and>
   \<not> animation_running (init_display 800 150) \<and>
   (\<exists>w' rs. draw_waveform (\<lambda>x y. x * y) (init_display 800 150) (\<lambda>i. int i * 7) = Inr (w', rs) \<and>
      length rs = 60 \<and> (\<forall>r \<in> set rs. rect_height r = 2))"
proof -
  let ?w = "start_animation (init_display 800 150)"
  let ?v = "init_display 800 150"
  let ?m = "\<lambda>x y :: real. x * y"
  have a: "animation_running ?w" by (simp add: start_animation_def init_display_def)
  have b: "nat (bars ?w) \<le> length (heights ?w)" by (simp add: start_animation_def init_display_def)
  have c: "3 \<le> height ?w" by (simp add: start_animation_def init_display_def)
  have m: "max_diff ?m ?w = 5"
    by (simp add: max_diff_def start_animation_def init_display_def py_int_def)
  have n: "\<not> animation_running ?v" by (simp add: init_display_def)
  have l: "nat (min (bars ?w) ((width ?w - 20) div (bar_width ?w + bar_gap ?w))) = 60"
    by (simp add: start_animation_def init_display_def)
  have l': "nat (min (bars ?v) ((width ?v - 20) div (bar_width ?v + bar_gap ?v))) = 60"
    by (simp add: init_display_def)
  have f: "max 2 (min (height_cap ?w)
      (py_int (?m (?m (amplitude ?w) (real_of_int (height ?w))) double_0_8))) = 2"
    by (simp add: start_animation_def init_display_def py_int_def height_cap_def)
  from draw_waveform_bar_heights[of ?w ?m "\<lambda>i. int i * 7"] a b c obtain w' rs where
    1: "draw_waveform ?m ?w (\<lambda>i. int i * 7) = Inr (w', rs)" and
    2: "length rs = nat (min (bars ?w) ((width ?w - 20) div (bar_width ?w + bar_gap ?w)))" and
    3: "rs \<noteq> [] \<longrightarrow> rect_height (rs ! 0) = max 2 (min (height_cap ?w)
      (py_int (?m (?m (amplitude ?w) (real_of_int (height ?w))) double_0_8)))" and
    4: "\<forall>r \<in> set rs. 2 \<le> rect_height r \<and> rect_height r \<le> max 2 (height_cap ?w)" and
    5: "\<forall>r \<in> set rs. real_of_int (rect_height r) \<le> 0.8 * real_of_int (height ?w)" and
    6: "\<forall>i. Suc i < length rs \<longrightarrow>
            \<bar>rect_height (rs ! Suc i) - rect_height (rs ! i)\<bar> \<le> max_diff ?m ?w"
    by blast
  from 2 l have len: "length rs = 60" by simp
  then have ne: "rs \<noteq> []" by auto
  with 3 f have first: "rect_height (rs ! 0) = 2" by simp
  from 1 len ne first 4 5 6 m have
    A: "\<exists>w' rs. draw_waveform ?m ?w (\<lambda>i. int i * 7) = Inr (w', rs) \<and>
      length rs = 60 \<and> rs \<noteq> [] \<and> rect_height (rs ! 0) = 2 \<and>
      (\<forall>r \<in> set rs. 2 \<le> rect_height r \<and>
         real_of_int (rect_height r) \<le> 0.8 * real_of_int (height ?w)) \<and>
      (\<forall>i. Suc i < length rs \<longrightarrow> \<bar>rect_height (rs ! Suc i) - rect_height (rs ! i)\<bar> \<le> 5)"
    by auto
  from draw_waveform_bar_heights[of ?v ?m "\<lambda>i. int i * 7"] n l' have
    B: "\<exists>w' rs. draw_waveform ?m ?v (\<lambda>i. int i * 7) = Inr (w', rs) \<and>
      length rs = 60 \<and> (\<forall>r \<in> set rs. rect_height r = 2)"
    by auto
  from a b c A n B show ?thesis by blast
qed

text \<open>On a canvas of height 2 the cap \<open>int(2 * 0.8)\<close> is 1 and the lower bound wins:
  whatever the products are, the animated bar is 2 high, more than 80 percent of the
  canvas height.\<close>

theorem draw_waveform_small_canvas:
  "\<forall>fmul. (\<exists>w'. draw_waveform fmul (start_animation (init_display 30 2)) (\<lambda>i. 0)
     = Inr (w', [(10, 0, 18, 2)])) \<and>
   rect_height (10, 0, 18, 2) = 2 \<and>
   \<not> real_of_int (rect_height (10, 0, 18, 2))
       \<le> 0.8 * real_of_int (height (start_animation (init_display 30 2)))"
  by (simp add: draw_waveform_def start_animation_def init_display_def Let_def
      animated_height_def height_cap_def py_int_def bar_rect_def rect_height_def
      upt_conv_Cons)

text \<open>
  Claim C10. \<open>update_amplitude\<close> stores \<open>min(1.0, amplitude * 1.5)\<close>: an input between
  0 and 1 leaves a stored amplitude between 0 and 1, and an input of at least two thirds
  leaves exactly 1.
\<close>

theorem update_amplitude_saturates:
  "amplitude (update_amplitude w a) = min 1 (a * 1.5) \<and>
   (0 \<le> a \<and> a \<le> 1 \<longrightarrow>
      0 \<le> amplitude (update_amplitude w a) \<and> amplitude (update_amplitude w a) \<le> 1) \<and>
   (2 / 3 \<le> a \<longrightarrow> amplitude (update_amplitude w a) = 1)"
  by (auto simp: update_amplitude_def min_def)

text \<open>The statement at the input three quarters.\<close>

theorem update_amplitude_saturates_witness:
  "(0::real) \<le> 3 / 4 \<and> (3 / 4 :: real) \<le> 1 \<and> (2 / 3 :: real) \<le> 3 / 4 \<and>
   0 \<le> amplitude (update_amplitude (init_display 800 150) (3 / 4)) \<and>
   amplitude (update_amplitude (init_display 800 150) (3 / 4)) \<le> 1 \<and>
   amplitude (update_amplitude (init_display 800 150) (3 / 4)) = 1"
  using update_amplitude_saturates[of "init_display 800 150" "3 / 4"] by simp

end
